theory Spec2Isabelle
  imports Complex_Main "HOL-Library.Monad_Syntax"
begin

section \<open>The coin-timer platformer core (game/core.py)\<close>

text \<open>
  Python floats are modelled as \<^typ>\<open>real\<close> (exact arithmetic, no rounding, no
  infinities or NaN), Python ints as \<^typ>\<open>int\<close>. Fields annotated \<open>float\<close> that
  the code fills with ints (the agent's start position, the coin's position) hold the
  embedded integer value.
\<close>

subsection \<open>Action constants\<close>

definition NOOP :: int where "NOOP = 0"
definition LEFT :: int where "LEFT = 1"
definition RIGHT :: int where "RIGHT = 2"
definition JUMP :: int where "JUMP = 3"

subsection \<open>Data model\<close>

record config =
  W :: int
  H :: int
  gravity :: real
  death_y :: real
  dt :: real
  agent_size_w :: int
  agent_size_h :: int
  ax_ground :: real
  ax_air :: real
  vx_max :: real
  jump_impulse :: real
  ground_friction :: real
  timer_budget :: real
  coins_to_win :: int

text \<open>The defaults of the dataclass \<open>Config\<close>.\<close>

definition default_config :: config where
  "default_config = \<lparr> W = 640, H = 360, gravity = 1500, death_y = 410, dt = 1 / 60,
     agent_size_w = 24, agent_size_h = 32, ax_ground = 3000, ax_air = 1500,
     vx_max = 250, jump_impulse = - 500, ground_friction = 85 / 100,
     timer_budget = 10, coins_to_win = 10 \<rparr>"

text \<open>
  The dataclasses \<open>Agent\<close> and \<open>Coin\<close> both have fields \<open>x\<close> and \<open>y\<close>; the
  fields carry the class name as a prefix here.
\<close>

record agent =
  agent_x :: real
  agent_y :: real
  agent_vx :: real
  agent_vy :: real
  agent_grounded :: bool

record coin =
  coin_x :: real
  coin_y :: real
  coin_spawn_index :: int

record state =
  agent :: agent
  coin :: coin
  coins_collected :: int
  time_left :: real
  last_coin_spawn_index :: int

text \<open>The events dictionary \<open>{"pickup": .., "win": .., "fail": ..}\<close>.\<close>

record events =
  pickup :: bool
  win :: bool
  fail :: "string option"

type_synonym platform = "int \<times> int \<times> int \<times> int"

definition platform_tops :: "config \<Rightarrow> platform list" where
  "platform_tops cfg =
     [(0, 320, 213, 40), (213, 320, 214, 40), (427, 320, 213, 40),
      (200, 240, 240, 15),
      (0, 160, 200, 15),
      (440, 160, 200, 15)]"

subsection \<open>The random generator\<close>

text \<open>
  \<open>numpy.random.Generator\<close> is a library object. It is modelled as an infinite stream
  of draws with a read position; \<open>rng.choice(xs)\<close> consumes one draw, picks the element
  of \<open>xs\<close> at that draw modulo the length, and raises \<open>ValueError\<close> on an empty
  list (\<open>None\<close> here). \<open>default_rng(seed)\<close> raises \<open>ValueError\<close> for a negative
  seed (\<open>None\<close> here); the stream it produces for the other seeds is a parameter.
\<close>

record rng =
  rng_draws :: "nat \<Rightarrow> nat"
  rng_pos :: nat

definition default_rng :: "(int \<Rightarrow> nat \<Rightarrow> nat) \<Rightarrow> int \<Rightarrow> rng option" where
  "default_rng G seed =
     (if seed < 0 then None else Some \<lparr> rng_draws = G seed, rng_pos = 0 \<rparr>)"

definition rng_choice :: "rng \<Rightarrow> 'a list \<Rightarrow> ('a \<times> rng) option" where
  "rng_choice r xs =
     (if xs = [] then None
      else Some (xs ! (rng_draws r (rng_pos r) mod length xs),
                 r\<lparr> rng_pos := Suc (rng_pos r) \<rparr>))"

definition sample_coin_spawn :: "config \<Rightarrow> rng \<Rightarrow> int \<Rightarrow> (int \<times> rng) option" where
  "sample_coin_spawn cfg r last_spawn =
     (let platforms = platform_tops cfg;
          available_indices = filter (\<lambda>i. i \<noteq> last_spawn) (map int [0 ..< length platforms])
      in rng_choice r available_indices)"

subsection \<open>Geometry\<close>

definition rects_intersect ::
  "real \<Rightarrow> real \<Rightarrow> real \<Rightarrow> real \<Rightarrow> real \<Rightarrow> real \<Rightarrow> real \<Rightarrow> real \<Rightarrow> bool" where
  "rects_intersect ax ay aw ah bx by bw bh \<longleftrightarrow>
     ax < bx + bw \<and> ax + aw > bx \<and> ay < by + bh \<and> ay + ah > by"

text \<open>The test of both collision loops: the agent's box against one platform.\<close>

definition hits :: "config \<Rightarrow> agent \<Rightarrow> platform \<Rightarrow> bool" where
  "hits cfg a p =
     (case p of (px, py, pw, ph) \<Rightarrow>
        rects_intersect (agent_x a) (agent_y a)
          (real_of_int (agent_size_w cfg)) (real_of_int (agent_size_h cfg))
          (real_of_int px) (real_of_int py) (real_of_int pw) (real_of_int ph))"

text \<open>The coin's place for a platform, as \<open>reset\<close> and \<open>step\<close> both compute it.\<close>

definition coin_at :: "platform \<Rightarrow> int \<Rightarrow> coin" where
  "coin_at p idx =
     (case p of (px, py, pw, ph) \<Rightarrow>
        \<lparr> coin_x = real_of_int (px + pw div 2 - 8),
          coin_y = real_of_int (py - 20),
          coin_spawn_index = idx \<rparr>)"

subsection \<open>reset\<close>

definition reset :: "(int \<Rightarrow> nat \<Rightarrow> nat) \<Rightarrow> config \<Rightarrow> int \<Rightarrow> (state \<times> rng) option" where
  "reset G cfg seed =
     (case default_rng G seed of
        None \<Rightarrow> None
      | Some r \<Rightarrow>
          (let a = \<lparr> agent_x = real_of_int (W cfg div 2 - agent_size_w cfg div 2),
                     agent_y = real_of_int (320 - agent_size_h cfg),
                     agent_vx = 0, agent_vy = 0, agent_grounded = True \<rparr>;
               platforms = platform_tops cfg
           in case rng_choice r (map int [0 ..< length platforms]) of
                None \<Rightarrow> None
              | Some (spawn_idx, r') \<Rightarrow>
                  Some (\<lparr> agent = a,
                          coin = coin_at (platforms ! nat spawn_idx) spawn_idx,
                          coins_collected = 0,
                          time_left = timer_budget cfg,
                          last_coin_spawn_index = spawn_idx \<rparr>, r')))"

subsection \<open>step\<close>

text \<open>The first loop over the actions: horizontal acceleration.\<close>

fun process_actions :: "config \<Rightarrow> int list \<Rightarrow> agent \<times> bool \<Rightarrow> agent \<times> bool" where
  "process_actions cfg [] (a, horizontal_input) = (a, horizontal_input)"
| "process_actions cfg (action # rest) (a, horizontal_input) =
     (if action = LEFT then
        process_actions cfg rest
          (a\<lparr> agent_vx := agent_vx a
                - (if agent_grounded a then ax_ground cfg else ax_air cfg) * dt cfg \<rparr>, True)
      else if action = RIGHT then
        process_actions cfg rest
          (a\<lparr> agent_vx := agent_vx a
                + (if agent_grounded a then ax_ground cfg else ax_air cfg) * dt cfg \<rparr>, True)
      else process_actions cfg rest (a, horizontal_input))"

text \<open>\<open>np.clip(v, lo, hi)\<close> is \<open>minimum(maximum(v, lo), hi)\<close>.\<close>

definition np_clip :: "real \<Rightarrow> real \<Rightarrow> real \<Rightarrow> real" where
  "np_clip v lo hi = min (max v lo) hi"

text \<open>Input processing, friction and the speed clamp (lines 198 to 217).\<close>

definition step_input :: "config \<Rightarrow> int list \<Rightarrow> agent \<Rightarrow> agent" where
  "step_input cfg actions a0 =
     (case process_actions cfg actions (a0, False) of
        (a1, horizontal_input) \<Rightarrow>
          (let a2 = (if agent_grounded a1 \<and> \<not> horizontal_input
                     then a1\<lparr> agent_vx := agent_vx a1 * ground_friction cfg \<rparr> else a1)
           in a2\<lparr> agent_vx := np_clip (agent_vx a2) (- vx_max cfg) (vx_max cfg) \<rparr>))"

text \<open>Horizontal integration and the screen boundary (lines 221 to 229).\<close>

definition step_move_x :: "config \<Rightarrow> agent \<Rightarrow> agent" where
  "step_move_x cfg a0 =
     (let a1 = a0\<lparr> agent_x := agent_x a0 + agent_vx a0 * dt cfg \<rparr>
      in if agent_x a1 < 0 then a1\<lparr> agent_x := 0, agent_vx := 0 \<rparr>
         else if agent_x a1 > real_of_int (W cfg - agent_size_w cfg)
         then a1\<lparr> agent_x := real_of_int (W cfg - agent_size_w cfg), agent_vx := 0 \<rparr>
         else a1)"

text \<open>The body of the horizontal collision loop for one platform (lines 234 to 241).\<close>

definition resolve_x :: "config \<Rightarrow> platform \<Rightarrow> agent \<Rightarrow> agent" where
  "resolve_x cfg p a =
     (if hits cfg a p then
        (case p of (px, py, pw, ph) \<Rightarrow>
           (if agent_vx a > 0
            then a\<lparr> agent_x := real_of_int (px - agent_size_w cfg), agent_vx := 0 \<rparr>
            else a\<lparr> agent_x := real_of_int (px + pw), agent_vx := 0 \<rparr>))
      else a)"

fun resolve_x_all :: "config \<Rightarrow> platform list \<Rightarrow> agent \<Rightarrow> agent" where
  "resolve_x_all cfg [] a = a"
| "resolve_x_all cfg (p # ps) a = resolve_x_all cfg ps (resolve_x cfg p a)"

text \<open>The second loop over the actions: the first jump of a grounded agent, then \<open>break\<close>.\<close>

fun process_jump :: "config \<Rightarrow> int list \<Rightarrow> agent \<Rightarrow> agent" where
  "process_jump cfg [] a = a"
| "process_jump cfg (action # rest) a =
     (if action = JUMP \<and> agent_grounded a
      then a\<lparr> agent_vy := jump_impulse cfg \<rparr>
      else process_jump cfg rest a)"

text \<open>Gravity, jump, the grounded flag and vertical integration (lines 245 to 258).\<close>

definition step_move_y :: "config \<Rightarrow> int list \<Rightarrow> agent \<Rightarrow> agent" where
  "step_move_y cfg actions a0 =
     (let a1 = a0\<lparr> agent_vy := agent_vy a0 + gravity cfg * dt cfg \<rparr>;
          a2 = process_jump cfg actions a1;
          a3 = a2\<lparr> agent_grounded := False \<rparr>
      in a3\<lparr> agent_y := agent_y a3 + agent_vy a3 * dt cfg \<rparr>)"

text \<open>The body of the vertical collision loop for one platform (lines 262 to 271).\<close>

definition resolve_y :: "config \<Rightarrow> platform \<Rightarrow> agent \<Rightarrow> agent" where
  "resolve_y cfg p a =
     (if hits cfg a p then
        (case p of (px, py, pw, ph) \<Rightarrow>
           (if agent_vy a > 0
            then a\<lparr> agent_y := real_of_int (py - agent_size_h cfg), agent_vy := 0,
                    agent_grounded := True \<rparr>
            else a\<lparr> agent_y := real_of_int (py + ph), agent_vy := 0 \<rparr>))
      else a)"

fun resolve_y_all :: "config \<Rightarrow> platform list \<Rightarrow> agent \<Rightarrow> agent" where
  "resolve_y_all cfg [] a = a"
| "resolve_y_all cfg (p # ps) a = resolve_y_all cfg ps (resolve_y cfg p a)"

text \<open>The agent after all movement of one step (lines 198 to 271).\<close>

definition step_agent :: "config \<Rightarrow> int list \<Rightarrow> agent \<Rightarrow> agent" where
  "step_agent cfg actions a =
     resolve_y_all cfg (platform_tops cfg)
       (step_move_y cfg actions
          (resolve_x_all cfg (platform_tops cfg)
             (step_move_x cfg (step_input cfg actions a))))"

text \<open>The overlap test of the pickup check (lines 275 to 277), the coin being 16 by 16.\<close>

definition touches_coin :: "config \<Rightarrow> agent \<Rightarrow> coin \<Rightarrow> bool" where
  "touches_coin cfg a c =
     rects_intersect (agent_x a) (agent_y a)
       (real_of_int (agent_size_w cfg)) (real_of_int (agent_size_h cfg))
       (coin_x c) (coin_y c) 16 16"

text \<open>Win and fail checks on the new state (lines 294 to 301).\<close>

definition step_events :: "config \<Rightarrow> state \<Rightarrow> bool \<Rightarrow> events" where
  "step_events cfg new_state picked =
     \<lparr> pickup = picked,
       win = (coins_collected new_state \<ge> coins_to_win cfg),
       fail = (if time_left new_state \<le> 0 then Some ''timeout''
               else if agent_y (agent new_state) \<ge> death_y cfg then Some ''fall''
               else None) \<rparr>"

text \<open>
  \<open>step\<close> returns the new state, the events and the generator as the call leaves it;
  \<open>None\<close> stands for the \<open>ValueError\<close> of \<open>rng.choice\<close> on an empty list.
\<close>

definition step :: "config \<Rightarrow> state \<Rightarrow> int list \<Rightarrow> rng \<Rightarrow> (state \<times> events \<times> rng) option" where
  "step cfg st actions r =
     (let new_agent = step_agent cfg actions (agent st);
          new_state = \<lparr> agent = new_agent, coin = coin st,
                        coins_collected = coins_collected st,
                        time_left = time_left st - dt cfg,
                        last_coin_spawn_index = last_coin_spawn_index st \<rparr>
      in if touches_coin cfg new_agent (coin st) then
           (case sample_coin_spawn cfg r (last_coin_spawn_index new_state) of
              None \<Rightarrow> None
            | Some (new_spawn_idx, r') \<Rightarrow>
                (let picked_state = new_state\<lparr>
                       coin := coin_at (platform_tops cfg ! nat new_spawn_idx) new_spawn_idx,
                       coins_collected := coins_collected new_state + 1,
                       time_left := timer_budget cfg,
                       last_coin_spawn_index := new_spawn_idx \<rparr>
                 in Some (picked_state, step_events cfg picked_state True, r')))
         else Some (new_state, step_events cfg new_state False, r))"

text \<open>
  The states of an episode: what \<open>reset\<close> returns, and what \<open>step\<close> returns on them,
  for any actions and any generator.
\<close>

inductive reachable :: "(int \<Rightarrow> nat \<Rightarrow> nat) \<Rightarrow> config \<Rightarrow> state \<Rightarrow> bool"
  for G :: "int \<Rightarrow> nat \<Rightarrow> nat" and cfg :: config where
  reach_reset: "reset G cfg seed = Some (st, r) \<Longrightarrow> reachable G cfg st"
| reach_step: "reachable G cfg st \<Longrightarrow> step cfg st actions r = Some (st', ev, r')
     \<Longrightarrow> reachable G cfg st'"

subsection \<open>Invariants and sample inputs\<close>

text \<open>
  What every state of an episode satisfies about its coin: the coin's index is the
  retained last index, it indexes the platform table, and the coin sits at the place
  computed for that platform.
\<close>

definition coin_ok :: "config \<Rightarrow> state \<Rightarrow> bool" where
  "coin_ok cfg st \<longleftrightarrow>
     coin_spawn_index (coin st) = last_coin_spawn_index st
     \<and> 0 \<le> coin_spawn_index (coin st) \<and> coin_spawn_index (coin st) \<le> 5
     \<and> coin st = coin_at (platform_tops cfg ! nat (coin_spawn_index (coin st)))
                   (coin_spawn_index (coin st))"

text \<open>
  Sample inputs: the agent where \<open>reset\<close> puts it under the default configuration, the
  state \<open>reset\<close> returns when the first draw selects platform 1 (the coin then overlaps
  the agent), the state one step later, the state \<open>reset\<close> returns when the first draw
  selects platform 0, and a generator whose draws are all 0.
\<close>

definition ex_rng :: rng where
  "ex_rng = \<lparr> rng_draws = (\<lambda>n. 0), rng_pos = 0 \<rparr>"

text \<open>The streams of a generator that draws 0 whatever the seed.\<close>

definition zero_draws :: "int \<Rightarrow> nat \<Rightarrow> nat" where
  "zero_draws seed n = 0"

definition ex_agent :: agent where
  "ex_agent = \<lparr> agent_x = 308, agent_y = 288, agent_vx = 0, agent_vy = 0,
                 agent_grounded = True \<rparr>"

definition ex_state :: state where
  "ex_state = \<lparr> agent = ex_agent,
                 coin = \<lparr> coin_x = 312, coin_y = 300, coin_spawn_index = 1 \<rparr>,
                 coins_collected = 0, time_left = 10, last_coin_spawn_index = 1 \<rparr>"

definition ex_state2 :: state where
  "ex_state2 = \<lparr> agent = ex_agent,
                  coin = \<lparr> coin_x = 98, coin_y = 300, coin_spawn_index = 0 \<rparr>,
                  coins_collected = 1, time_left = 10, last_coin_spawn_index = 0 \<rparr>"

definition ex_state0 :: state where
  "ex_state0 = \<lparr> agent = ex_agent,
                  coin = \<lparr> coin_x = 98, coin_y = 300, coin_spawn_index = 0 \<rparr>,
                  coins_collected = 0, time_left = 10, last_coin_spawn_index = 0 \<rparr>"

definition ex_events :: events where
  "ex_events = \<lparr> pickup = True, win = False, fail = None \<rparr>"

text \<open>
  Sample inputs for the fail reason: the two sample states with a hundredth of a second
  left, and a state whose agent is below the death line.
\<close>

definition late_state :: state where
  "late_state = ex_state\<lparr> time_left := 1 / 100 \<rparr>"

definition late_state2 :: state where
  "late_state2 = ex_state2\<lparr> time_left := 1 / 100 \<rparr>"

definition fallen_agent :: agent where
  "fallen_agent = \<lparr> agent_x = 308, agent_y = 500, agent_vx = 0, agent_vy = 0,
                     agent_grounded = False \<rparr>"

definition fallen_state :: state where
  "fallen_state = ex_state2\<lparr> agent := fallen_agent \<rparr>"

subsection \<open>Containment in the arena\<close>

text \<open>
  The geometry for which the collision loops are analysed: the default arena width and
  agent box, a timestep that is not negative, and a horizontal travel per step (the
  clamped speed times the timestep) of at most 200 pixels. The default configuration is
  one. The analysis is over exact reals; the bounds on the motion are stated for the
  default configuration, whose magnitudes stay far inside the range of a double.
\<close>

definition standard_geometry :: "config \<Rightarrow> bool" where
  "standard_geometry cfg \<longleftrightarrow>
     W cfg = 640 \<and> agent_size_w cfg = 24 \<and> agent_size_h cfg = 32
     \<and> 0 \<le> dt cfg \<and> \<bar>vx_max cfg * dt cfg\<bar> \<le> 200"

text \<open>The agent's box overlaps no platform; the agent's x is inside the arena.\<close>

definition clear_of_platforms :: "config \<Rightarrow> agent \<Rightarrow> bool" where
  "clear_of_platforms cfg a \<longleftrightarrow> (\<forall>p \<in> set (platform_tops cfg). \<not> hits cfg a p)"

definition in_arena :: "config \<Rightarrow> agent \<Rightarrow> bool" where
  "in_arena cfg a \<longleftrightarrow>
     0 \<le> agent_x a \<and> agent_x a \<le> real_of_int (W cfg - agent_size_w cfg)"

text \<open>The six heights at which the vertical collision loop can leave the agent.\<close>

definition at_rest :: "agent \<Rightarrow> bool" where
  "at_rest a \<longleftrightarrow> agent_y a \<in> {128, 175, 208, 255, 288, 360}"

text \<open>
  What the agent of every state of an episode satisfies under the default configuration:
  it is inside the arena, overlaps no platform, is not below the floor's top, is no
  faster horizontally than the speed limit, and its vertical speed is bounded through
  its height: with gravity 1500 and timestep 1/60 a step in free fall lowers
  \<open>vy\<^sup>2 - 3000 * y\<close> by 625, a jump (impulse -500) starts from a platform's top at
  y of at least 128 and leaves that quantity at most -109000, and a landing or a bump
  sets vy to 0 at a height of at least 128.
\<close>

definition agent_inv :: "agent \<Rightarrow> bool" where
  "agent_inv a \<longleftrightarrow>
     in_arena default_config a \<and> clear_of_platforms default_config a
     \<and> agent_y a \<le> 288 \<and> \<bar>agent_vx a\<bar> \<le> 250
     \<and> (agent_vy a)\<^sup>2 \<le> 3000 * agent_y a - 109000
     \<and> (agent_grounded a \<longrightarrow> 128 \<le> agent_y a)"

text \<open>
  Sample inputs for the motion: the agent one step after \<open>reset\<close> with the actions
  \<open>RIGHT\<close> and \<open>JUMP\<close>, and an agent at the left wall running left at full speed.
\<close>

definition jump_agent :: agent where
  "jump_agent = \<lparr> agent_x = 308 + 50 / 60, agent_y = 288 - 500 / 60, agent_vx = 50,
                   agent_vy = - 500, agent_grounded = False \<rparr>"

definition wall_agent :: agent where
  "wall_agent = \<lparr> agent_x = 0, agent_y = 288, agent_vx = - 250, agent_vy = 0,
                   agent_grounded = True \<rparr>"

definition wall_state :: state where
  "wall_state = ex_state2\<lparr> agent := wall_agent \<rparr>"

text \<open>
  A configuration with a taller agent (200 instead of 32), the state \<open>reset\<close> returns
  for it when the first draw selects platform 0, and the agent one idle step later.
\<close>

definition tall_config :: config where
  "tall_config = default_config\<lparr> agent_size_h := 200 \<rparr>"

definition tall_agent :: agent where
  "tall_agent = \<lparr> agent_x = 308, agent_y = 120, agent_vx = 0, agent_vy = 0,
                   agent_grounded = True \<rparr>"

definition tall_state :: state where
  "tall_state = \<lparr> agent = tall_agent,
                   coin = \<lparr> coin_x = 98, coin_y = 300, coin_spawn_index = 0 \<rparr>,
                   coins_collected = 0, time_left = 10, last_coin_spawn_index = 0 \<rparr>"

definition tall_agent' :: agent where
  "tall_agent' = \<lparr> agent_x = 640, agent_y = 120 + 25 / 60, agent_vx = 0, agent_vy = 25,
                    agent_grounded = False \<rparr>"

subsection \<open>Sample inputs for the horizontal collision loop\<close>

text \<open>
  An agent placed inside the floor (no state of an episode, but a well-formed input),
  that agent after the input \<open>RIGHT\<close> and horizontal integration, and a state whose
  agent touches the left side of the middle platform.
\<close>

definition floor_agent :: agent where
  "floor_agent = \<lparr> agent_x = 200, agent_y = 300, agent_vx = 0, agent_vy = 0,
                    agent_grounded = False \<rparr>"

definition moved_agent :: agent where
  "moved_agent = \<lparr> agent_x = 200 + 25 / 60, agent_y = 300, agent_vx = 25, agent_vy = 0,
                    agent_grounded = False \<rparr>"

definition side_state :: state where
  "side_state = \<lparr> agent = \<lparr> agent_x = 176, agent_y = 220, agent_vx = 0, agent_vy = 0,
                               agent_grounded = False \<rparr>,
                   coin = \<lparr> coin_x = 98, coin_y = 300, coin_spawn_index = 0 \<rparr>,
                   coins_collected = 0, time_left = 10, last_coin_spawn_index = 0 \<rparr>"

subsection \<open>The same code over a store of objects\<close>

text \<open>
  \<open>step\<close> builds new \<open>Agent\<close>, \<open>Coin\<close> and \<open>State\<close> objects and assigns to their
  fields; the returned state refers to the agent and coin objects that the later
  assignments change. To state what happens to the objects of the input, the code is
  modelled a second time over a store: objects live at addresses, a state object holds
  the addresses of its agent and coin, a constructor call allocates the next free
  address and an attribute assignment overwrites the object at an address. A block of
  consecutive assignments to one object is one write.
\<close>

record state_obj =
  so_agent :: nat
  so_coin :: nat
  so_coins_collected :: int
  so_time_left :: real
  so_last_coin_spawn_index :: int

datatype obj = AgentObj agent | CoinObj coin | StateObj state_obj

record store =
  cells :: "nat \<Rightarrow> obj option"
  next_addr :: nat

definition alloc :: "store \<Rightarrow> obj \<Rightarrow> nat \<times> store" where
  "alloc h ob = (next_addr h,
                 \<lparr> cells = (cells h)(next_addr h \<mapsto> ob), next_addr = Suc (next_addr h) \<rparr>)"

definition lookup :: "store \<Rightarrow> nat \<Rightarrow> obj option" where
  "lookup h a = (if a < next_addr h then cells h a else None)"

definition get_agent :: "store \<Rightarrow> nat \<Rightarrow> agent option" where
  "get_agent h a = (case lookup h a of Some (AgentObj x) \<Rightarrow> Some x | _ \<Rightarrow> None)"

definition get_coin :: "store \<Rightarrow> nat \<Rightarrow> coin option" where
  "get_coin h a = (case lookup h a of Some (CoinObj x) \<Rightarrow> Some x | _ \<Rightarrow> None)"

definition get_state :: "store \<Rightarrow> nat \<Rightarrow> state_obj option" where
  "get_state h a = (case lookup h a of Some (StateObj x) \<Rightarrow> Some x | _ \<Rightarrow> None)"

definition set_obj :: "store \<Rightarrow> nat \<Rightarrow> obj \<Rightarrow> store" where
  "set_obj h a ob = h\<lparr> cells := (cells h)(a \<mapsto> ob) \<rparr>"

definition modify_agent :: "store \<Rightarrow> nat \<Rightarrow> (agent \<Rightarrow> agent) \<Rightarrow> store option" where
  "modify_agent h a f = do { x \<leftarrow> get_agent h a; Some (set_obj h a (AgentObj (f x))) }"

definition modify_coin :: "store \<Rightarrow> nat \<Rightarrow> (coin \<Rightarrow> coin) \<Rightarrow> store option" where
  "modify_coin h a f = do { x \<leftarrow> get_coin h a; Some (set_obj h a (CoinObj (f x))) }"

definition modify_state :: "store \<Rightarrow> nat \<Rightarrow> (state_obj \<Rightarrow> state_obj) \<Rightarrow> store option" where
  "modify_state h a f = do { x \<leftarrow> get_state h a; Some (set_obj h a (StateObj (f x))) }"

definition read_state :: "store \<Rightarrow> nat \<Rightarrow> state option" where
  "read_state h st = do {
     s \<leftarrow> get_state h st;
     a \<leftarrow> get_agent h (so_agent s);
     c \<leftarrow> get_coin h (so_coin s);
     Some \<lparr> agent = a, coin = c, coins_collected = so_coins_collected s,
            time_left = so_time_left s,
            last_coin_spawn_index = so_last_coin_spawn_index s \<rparr> }"

text \<open>\<open>reset\<close> and \<open>step\<close> over the store, statement by statement.\<close>

definition reset_store ::
  "(int \<Rightarrow> nat \<Rightarrow> nat) \<Rightarrow> config \<Rightarrow> store \<Rightarrow> int \<Rightarrow> (store \<times> nat \<times> rng) option" where
  "reset_store G cfg h0 seed = do {
     r \<leftarrow> default_rng G seed;
     let (a, h) = alloc h0 (AgentObj
            \<lparr> agent_x = real_of_int (W cfg div 2 - agent_size_w cfg div 2),
              agent_y = real_of_int (320 - agent_size_h cfg),
              agent_vx = 0, agent_vy = 0, agent_grounded = True \<rparr>);
     let platforms = platform_tops cfg;
     (spawn_idx, r') \<leftarrow> rng_choice r (map int [0 ..< length platforms]);
     let (c, h) = alloc h (CoinObj (coin_at (platforms ! nat spawn_idx) spawn_idx));
     let (st, h) = alloc h (StateObj \<lparr> so_agent = a, so_coin = c, so_coins_collected = 0,
            so_time_left = timer_budget cfg, so_last_coin_spawn_index = spawn_idx \<rparr>);
     Some (h, st, r') }"

definition step_store ::
  "config \<Rightarrow> store \<Rightarrow> nat \<Rightarrow> int list \<Rightarrow> rng \<Rightarrow> (store \<times> nat \<times> events \<times> rng) option" where
  "step_store cfg h0 st actions r = do {
     s \<leftarrow> get_state h0 st;
     a \<leftarrow> get_agent h0 (so_agent s);
     c \<leftarrow> get_coin h0 (so_coin s);
     let (new_agent, h) = alloc h0 (AgentObj \<lparr> agent_x = agent_x a, agent_y = agent_y a,
            agent_vx = agent_vx a, agent_vy = agent_vy a,
            agent_grounded = agent_grounded a \<rparr>);
     let (new_coin, h) = alloc h (CoinObj \<lparr> coin_x = coin_x c, coin_y = coin_y c,
            coin_spawn_index = coin_spawn_index c \<rparr>);
     let (new_state, h) = alloc h (StateObj \<lparr> so_agent = new_agent, so_coin = new_coin,
            so_coins_collected = so_coins_collected s,
            so_time_left = so_time_left s - dt cfg,
            so_last_coin_spawn_index = so_last_coin_spawn_index s \<rparr>);
     h \<leftarrow> modify_agent h new_agent (step_input cfg actions);
     h \<leftarrow> modify_agent h new_agent (step_move_x cfg);
     h \<leftarrow> modify_agent h new_agent (resolve_x_all cfg (platform_tops cfg));
     h \<leftarrow> modify_agent h new_agent (step_move_y cfg actions);
     h \<leftarrow> modify_agent h new_agent (resolve_y_all cfg (platform_tops cfg));
     a' \<leftarrow> get_agent h new_agent;
     c' \<leftarrow> get_coin h new_coin;
     (h, picked, r') \<leftarrow>
       (if touches_coin cfg a' c' then do {
          h \<leftarrow> modify_state h new_state
                 (\<lambda>s. s\<lparr> so_coins_collected := so_coins_collected s + 1,
                          so_time_left := timer_budget cfg \<rparr>);
          s' \<leftarrow> get_state h new_state;
          (new_spawn_idx, r') \<leftarrow> sample_coin_spawn cfg r (so_last_coin_spawn_index s');
          h \<leftarrow> modify_coin h new_coin
                 (\<lambda>_. coin_at (platform_tops cfg ! nat new_spawn_idx) new_spawn_idx);
          h \<leftarrow> modify_state h new_state
                 (\<lambda>s. s\<lparr> so_last_coin_spawn_index := new_spawn_idx \<rparr>);
          Some (h, True, r') }
        else Some (h, False, r));
     s'' \<leftarrow> get_state h new_state;
     a'' \<leftarrow> get_agent h new_agent;
     Some (h, new_state,
           \<lparr> pickup = picked,
             win = (so_coins_collected s'' \<ge> coins_to_win cfg),
             fail = (if so_time_left s'' \<le> 0 then Some ''timeout''
                     else if agent_y a'' \<ge> death_y cfg then Some ''fall''
                     else None) \<rparr>, r') }"

text \<open>
  An episode: \<open>reset\<close>, then one \<open>step\<close> per action list, the generator threaded
  through, over values and over the store. \<open>observe\<close> and \<open>watch\<close> read the states of
  a trajectory back from the final store, as a caller that kept every returned state
  would see them.
\<close>

fun run :: "config \<Rightarrow> state \<Rightarrow> rng \<Rightarrow> int list list \<Rightarrow> (state \<times> events) list option" where
  "run cfg st r [] = Some []"
| "run cfg st r (actions # rest) = do {
     (st', ev, r') \<leftarrow> step cfg st actions r;
     tr \<leftarrow> run cfg st' r' rest;
     Some ((st', ev) # tr) }"

definition episode ::
  "(int \<Rightarrow> nat \<Rightarrow> nat) \<Rightarrow> config \<Rightarrow> int \<Rightarrow> int list list
     \<Rightarrow> (state \<times> (state \<times> events) list) option" where
  "episode G cfg seed actss = do {
     (st, r) \<leftarrow> reset G cfg seed;
     tr \<leftarrow> run cfg st r actss;
     Some (st, tr) }"

fun run_store ::
  "config \<Rightarrow> store \<Rightarrow> nat \<Rightarrow> rng \<Rightarrow> int list list \<Rightarrow> (store \<times> (nat \<times> events) list) option" where
  "run_store cfg h st r [] = Some (h, [])"
| "run_store cfg h st r (actions # rest) = do {
     (h', st', ev, r') \<leftarrow> step_store cfg h st actions r;
     (h'', tr) \<leftarrow> run_store cfg h' st' r' rest;
     Some (h'', (st', ev) # tr) }"

definition episode_store ::
  "(int \<Rightarrow> nat \<Rightarrow> nat) \<Rightarrow> config \<Rightarrow> store \<Rightarrow> int \<Rightarrow> int list list
     \<Rightarrow> (store \<times> nat \<times> (nat \<times> events) list) option" where
  "episode_store G cfg h seed actss = do {
     (h0, st0, r0) \<leftarrow> reset_store G cfg h seed;
     (h', tr) \<leftarrow> run_store cfg h0 st0 r0 actss;
     Some (h', st0, tr) }"

fun observe :: "store \<Rightarrow> (nat \<times> events) list \<Rightarrow> (state \<times> events) list option" where
  "observe h [] = Some []"
| "observe h ((st, ev) # tr) = do {
     s \<leftarrow> read_state h st;
     ss \<leftarrow> observe h tr;
     Some ((s, ev) # ss) }"

definition watch ::
  "store \<times> nat \<times> (nat \<times> events) list \<Rightarrow> (state \<times> (state \<times> events) list) option" where
  "watch res = (case res of (h, st0, tr) \<Rightarrow> do {
     s0 \<leftarrow> read_state h st0;
     ss \<leftarrow> observe h tr;
     Some (s0, ss) })"

text \<open>
  For the proofs: the store after the three allocations, a state as a state object, and
  a store that keeps every object of another. Then an empty store and a store that holds
  the sample state.
\<close>

definition built :: "store \<Rightarrow> agent \<Rightarrow> coin \<Rightarrow> state_obj \<Rightarrow> store" where
  "built h a c s =
     \<lparr> cells = (cells h)(next_addr h \<mapsto> AgentObj a, Suc (next_addr h) \<mapsto> CoinObj c,
                         Suc (Suc (next_addr h)) \<mapsto> StateObj s),
       next_addr = Suc (Suc (Suc (next_addr h))) \<rparr>"

definition to_obj :: "nat \<Rightarrow> nat \<Rightarrow> state \<Rightarrow> state_obj" where
  "to_obj na nc s = \<lparr> so_agent = na, so_coin = nc, so_coins_collected = coins_collected s,
       so_time_left = time_left s, so_last_coin_spawn_index = last_coin_spawn_index s \<rparr>"

definition extends :: "store \<Rightarrow> store \<Rightarrow> bool" where
  "extends h h' \<longleftrightarrow>
     next_addr h \<le> next_addr h' \<and> (\<forall>a < next_addr h. cells h' a = cells h a)"

definition empty_store :: store where
  "empty_store = \<lparr> cells = (\<lambda>a. None), next_addr = 0 \<rparr>"

definition ex_store :: store where
  "ex_store = built empty_store ex_agent (coin ex_state) (to_obj 0 1 ex_state)"

section \<open>Basic facts\<close>

lemma length_platform_tops: "length (platform_tops cfg) = 6"
  by (simp add: platform_tops_def)

lemma sample_coin_spawn_Some:
  "\<exists>i r'. sample_coin_spawn cfg r k = Some (i, r')"
proof -
  have "filter (\<lambda>i. i \<noteq> k) (map int [0 ..< 6]) \<noteq> []"
  proof (cases "k = 0")
    case True
    have "(1::int) \<in> set (filter (\<lambda>i. i \<noteq> k) (map int [0 ..< 6]))"
      using True by (simp add: upt_rec)
    then show ?thesis by (metis empty_iff list.set(1))
  next
    case False
    have "(0::int) \<in> set (filter (\<lambda>i. i \<noteq> k) (map int [0 ..< 6]))"
      using False by (simp add: upt_rec)
    then show ?thesis by (metis empty_iff list.set(1))
  qed
  then show ?thesis
    by (simp add: sample_coin_spawn_def rng_choice_def length_platform_tops Let_def)
qed

lemma step_total: "\<exists>st' ev r'. step cfg st actions r = Some (st', ev, r')"
proof (cases "touches_coin cfg (step_agent cfg actions (agent st)) (coin st)")
  case True
  obtain i r' where "sample_coin_spawn cfg r (last_coin_spawn_index st) = Some (i, r')"
    using sample_coin_spawn_Some by blast
  with True show ?thesis by (simp add: step_def Let_def)
next
  case False
  then show ?thesis by (simp add: step_def Let_def)
qed

lemma idx_list: "map int [0 ..< 6] = [0, 1, 2, 3, 4, 5]"
  by (simp add: upt_rec)

lemma rng_choice_mem: "rng_choice r xs = Some (v, r') \<Longrightarrow> v \<in> set xs"
  by (auto simp: rng_choice_def split: if_splits)

lemma sample_coin_spawn_range:
  assumes "sample_coin_spawn cfg r k = Some (i, r')"
  shows "i \<noteq> k \<and> 0 \<le> i \<and> i \<le> 5"
proof -
  have "i \<in> set (filter (\<lambda>i. i \<noteq> k) (map int [0 ..< 6]))"
    using assms rng_choice_mem
    by (fastforce simp: sample_coin_spawn_def Let_def length_platform_tops)
  then show ?thesis by auto
qed

lemma step_agent_eq:
  "step cfg st actions r = Some (st', ev, r') \<Longrightarrow> agent st' = step_agent cfg actions (agent st)"
  by (auto simp: step_def Let_def split: if_splits option.splits)

lemma step_pickup_iff:
  "step cfg st actions r = Some (st', ev, r') \<Longrightarrow>
     pickup ev = touches_coin cfg (step_agent cfg actions (agent st)) (coin st)"
  by (auto simp: step_def Let_def step_events_def split: if_splits option.splits)

subsection \<open>The coin invariant\<close>

lemma reset_coin_ok:
  assumes "reset G cfg seed = Some (st, r)"
  shows "coin_ok cfg st"
proof -
  obtain r0 i r' where c: "rng_choice r0 (map int [0 ..< 6]) = Some (i, r')"
    and st: "st = \<lparr> agent = \<lparr> agent_x = real_of_int (W cfg div 2 - agent_size_w cfg div 2),
                agent_y = real_of_int (320 - agent_size_h cfg),
                agent_vx = 0, agent_vy = 0, agent_grounded = True \<rparr>,
              coin = coin_at (platform_tops cfg ! nat i) i, coins_collected = 0,
              time_left = timer_budget cfg, last_coin_spawn_index = i \<rparr>"
    using assms
    by (auto simp: reset_def Let_def length_platform_tops split: option.splits)
  have "i \<in> set (map int [0 ..< 6])" using c rng_choice_mem by fastforce
  then have "0 \<le> i \<and> i \<le> 5" by auto
  then show ?thesis by (simp add: coin_ok_def st coin_at_def split: prod.splits)
qed

lemma step_coin_ok:
  assumes "coin_ok cfg st" and "step cfg st actions r = Some (st', ev, r')"
  shows "coin_ok cfg st'"
proof (cases "touches_coin cfg (step_agent cfg actions (agent st)) (coin st)")
  case True
  then obtain i where s: "sample_coin_spawn cfg r (last_coin_spawn_index st) = Some (i, r')"
    and c: "coin st' = coin_at (platform_tops cfg ! nat i) i"
    and l: "last_coin_spawn_index st' = i"
    using assms(2) by (auto simp: step_def Let_def split: option.splits)
  have "0 \<le> i \<and> i \<le> 5" using sample_coin_spawn_range [OF s] by simp
  then show ?thesis by (simp add: coin_ok_def c l coin_at_def split: prod.splits)
next
  case False
  then have "coin st' = coin st" "last_coin_spawn_index st' = last_coin_spawn_index st"
    using assms(2) by (auto simp: step_def Let_def)
  then show ?thesis using assms(1) by (auto simp: coin_ok_def)
qed

lemma reachable_coin_ok: "reachable G cfg st \<Longrightarrow> coin_ok cfg st"
  by (induction rule: reachable.induct) (auto intro: reset_coin_ok step_coin_ok)

subsection \<open>The sample inputs, evaluated\<close>

lemma ex_input: "step_input default_config [NOOP] ex_agent = ex_agent"
  by (simp add: step_input_def default_config_def ex_agent_def NOOP_def LEFT_def RIGHT_def
      np_clip_def)

lemma ex_move_x: "step_move_x default_config ex_agent = ex_agent"
  by (simp add: step_move_x_def default_config_def ex_agent_def)

lemma ex_resolve_x:
  "resolve_x_all default_config (platform_tops default_config) ex_agent = ex_agent"
  by (simp add: platform_tops_def resolve_x_def hits_def rects_intersect_def
      default_config_def ex_agent_def)

lemma ex_move_y: "step_move_y default_config [NOOP] ex_agent =
    ex_agent\<lparr> agent_y := 288 + 25 / 60, agent_vy := 25, agent_grounded := False \<rparr>"
  by (simp add: step_move_y_def default_config_def ex_agent_def NOOP_def JUMP_def)

lemma ex_resolve_y: "resolve_y_all default_config (platform_tops default_config)
     (ex_agent\<lparr> agent_y := 288 + 25 / 60, agent_vy := 25, agent_grounded := False \<rparr>)
     = ex_agent"
  by (simp add: platform_tops_def resolve_y_def hits_def rects_intersect_def
      default_config_def ex_agent_def)

lemma ex_step_agent: "step_agent default_config [NOOP] ex_agent = ex_agent"
  by (simp only: step_agent_def ex_input ex_move_x ex_resolve_x ex_move_y ex_resolve_y)

lemma ex_touch: "touches_coin default_config ex_agent (coin ex_state)"
  by (simp add: touches_coin_def rects_intersect_def default_config_def ex_agent_def
      ex_state_def)

lemma ex_no_touch: "\<not> touches_coin default_config ex_agent (coin ex_state2)"
  by (simp add: touches_coin_def rects_intersect_def default_config_def ex_agent_def
      ex_state2_def)

lemma ex_sample:
  "sample_coin_spawn default_config ex_rng 1 = Some (0, ex_rng\<lparr> rng_pos := 1 \<rparr>)"
  by (simp add: sample_coin_spawn_def rng_choice_def length_platform_tops idx_list ex_rng_def)

lemma ex_coin: "coin_at (platform_tops cfg ! 0) 0
    = \<lparr> coin_x = 98, coin_y = 300, coin_spawn_index = 0 \<rparr>"
  by (simp add: coin_at_def platform_tops_def)

lemma ex_reset:
  "reset (\<lambda>s n. 1) default_config 0
     = Some (ex_state, \<lparr> rng_draws = (\<lambda>n. 1), rng_pos = 1 \<rparr>)"
proof -
  have d: "default_rng (\<lambda>s n. 1) 0 = Some \<lparr> rng_draws = (\<lambda>n. 1), rng_pos = 0 \<rparr>"
    by (simp add: default_rng_def)
  have c: "rng_choice \<lparr> rng_draws = (\<lambda>n. 1), rng_pos = 0 \<rparr> [0, 1, 2, 3, 4, 5]
             = Some (1::int, \<lparr> rng_draws = (\<lambda>n. 1), rng_pos = 1 \<rparr>)"
    by (simp add: rng_choice_def)
  have p: "coin_at (platform_tops default_config ! nat 1) 1
             = \<lparr> coin_x = 312, coin_y = 300, coin_spawn_index = 1 \<rparr>"
    by (simp add: coin_at_def platform_tops_def)
  show ?thesis
    unfolding reset_def d option.case Let_def length_platform_tops idx_list c
    apply (simp only: option.case prod.case p)
    apply (simp add: ex_state_def ex_agent_def default_config_def)
    done
qed

lemma ex_step: "step default_config ex_state [NOOP] ex_rng =
   Some (ex_state2, ex_events, ex_rng\<lparr> rng_pos := 1 \<rparr>)"
proof -
  have a: "agent ex_state = ex_agent" by (simp add: ex_state_def)
  have l: "last_coin_spawn_index ex_state = 1" by (simp add: ex_state_def)
  show ?thesis
    unfolding step_def a ex_step_agent
    using ex_touch
    apply (simp add: Let_def l ex_sample)
    apply (simp add: ex_state_def ex_state2_def ex_events_def step_events_def ex_coin
        default_config_def ex_agent_def)
    done
qed

lemma ex_step2: "step default_config ex_state2 [NOOP] ex_rng =
   Some (ex_state2\<lparr> time_left := 10 - 1 / 60 \<rparr>,
         \<lparr> pickup = False, win = False, fail = None \<rparr>, ex_rng)"
proof -
  have a: "agent ex_state2 = ex_agent" by (simp add: ex_state2_def)
  show ?thesis
    unfolding step_def a ex_step_agent
    using ex_no_touch
    apply (simp add: Let_def)
    apply (simp add: ex_state2_def step_events_def default_config_def ex_agent_def)
    done
qed

lemma zero_draws_0: "zero_draws seed = (\<lambda>n. 0)"
  by (rule ext) (simp add: zero_draws_def)

lemma zero_choice: "rng_choice ex_rng [0, 1, 2, 3, 4, 5] = Some (0::int, ex_rng\<lparr> rng_pos := 1 \<rparr>)"
  by (simp add: rng_choice_def ex_rng_def)

lemma ex_reachable: "reachable (\<lambda>s n. 1) default_config ex_state"
  using ex_reset by (rule reach_reset)


section \<open>Pickup, timer, win and fail\<close>

text \<open>
  C3. Whenever the agent's box after all movement of a step overlaps the 16 by 16 box of
  the coin of the input state, the step reports \<open>pickup\<close>, the count of collected coins
  grows by exactly one, and the time left is exactly the configured budget, whatever it
  was before.
\<close>

theorem pickup_effects:
  assumes "step cfg st actions r = Some (st', ev, r')"
    and "touches_coin cfg (agent st') (coin st)"
  shows "pickup ev \<and> coins_collected st' = coins_collected st + 1
           \<and> time_left st' = timer_budget cfg"
proof -
  have t: "touches_coin cfg (step_agent cfg actions (agent st)) (coin st)"
    using assms step_agent_eq by metis
  show ?thesis using assms(1) t
    by (auto simp: step_def Let_def step_events_def split: option.splits)
qed

theorem pickup_effects_witness:
  "step default_config ex_state [NOOP] ex_rng
     = Some (ex_state2, ex_events, ex_rng\<lparr> rng_pos := 1 \<rparr>)
   \<and> touches_coin default_config (agent ex_state2) (coin ex_state)
   \<and> pickup ex_events \<and> coins_collected ex_state2 = coins_collected ex_state + 1
   \<and> time_left ex_state2 = timer_budget default_config"
proof -
  have t: "touches_coin default_config (agent ex_state2) (coin ex_state)"
    using ex_touch by (simp add: ex_state2_def)
  show ?thesis using pickup_effects [OF ex_step t] ex_step t by simp
qed

lemma late_step: "step default_config late_state [NOOP] ex_rng =
   Some (ex_state2, ex_events, ex_rng\<lparr> rng_pos := 1 \<rparr>)"
proof -
  have a: "agent late_state = ex_agent" by (simp add: late_state_def ex_state_def)
  have c: "coin late_state = coin ex_state" by (simp add: late_state_def)
  have l: "last_coin_spawn_index late_state = 1" by (simp add: late_state_def ex_state_def)
  show ?thesis
    unfolding step_def a c ex_step_agent
    using ex_touch
    apply (simp add: Let_def l ex_sample)
    apply (simp add: late_state_def ex_state_def ex_state2_def ex_events_def step_events_def
        ex_coin default_config_def ex_agent_def)
    done
qed

lemma late_step2: "step default_config late_state2 [NOOP] ex_rng =
   Some (late_state2\<lparr> time_left := 1 / 100 - 1 / 60 \<rparr>,
         \<lparr> pickup = False, win = False, fail = Some ''timeout'' \<rparr>, ex_rng)"
proof -
  have a: "agent late_state2 = ex_agent" by (simp add: late_state2_def ex_state2_def)
  have c: "coin late_state2 = coin ex_state2" by (simp add: late_state2_def)
  show ?thesis
    unfolding step_def a c ex_step_agent
    using ex_no_touch
    apply (simp add: Let_def)
    apply (simp add: late_state2_def ex_state2_def step_events_def default_config_def
        ex_agent_def)
    done
qed

lemma fallen_input: "step_input default_config [NOOP] fallen_agent = fallen_agent"
  by (simp add: step_input_def default_config_def fallen_agent_def NOOP_def LEFT_def
      RIGHT_def np_clip_def)

lemma fallen_move_x: "step_move_x default_config fallen_agent = fallen_agent"
  by (simp add: step_move_x_def default_config_def fallen_agent_def)

lemma fallen_resolve_x:
  "resolve_x_all default_config (platform_tops default_config) fallen_agent = fallen_agent"
  by (simp add: platform_tops_def resolve_x_def hits_def rects_intersect_def
      default_config_def fallen_agent_def)

lemma fallen_move_y: "step_move_y default_config [NOOP] fallen_agent =
    fallen_agent\<lparr> agent_y := 500 + 25 / 60, agent_vy := 25 \<rparr>"
  by (simp add: step_move_y_def default_config_def fallen_agent_def NOOP_def JUMP_def)

lemma fallen_resolve_y: "resolve_y_all default_config (platform_tops default_config)
     (fallen_agent\<lparr> agent_y := 500 + 25 / 60, agent_vy := 25 \<rparr>)
     = fallen_agent\<lparr> agent_y := 500 + 25 / 60, agent_vy := 25 \<rparr>"
  by (simp add: platform_tops_def resolve_y_def hits_def rects_intersect_def
      default_config_def fallen_agent_def)

lemma fallen_step_agent: "step_agent default_config [NOOP] fallen_agent
    = fallen_agent\<lparr> agent_y := 500 + 25 / 60, agent_vy := 25 \<rparr>"
  by (simp only: step_agent_def fallen_input fallen_move_x fallen_resolve_x fallen_move_y
      fallen_resolve_y)

lemma fallen_no_touch: "\<not> touches_coin default_config
    (fallen_agent\<lparr> agent_y := 500 + 25 / 60, agent_vy := 25 \<rparr>) (coin ex_state2)"
  by (simp add: touches_coin_def rects_intersect_def default_config_def fallen_agent_def
      ex_state2_def)

lemma fallen_step: "step default_config fallen_state [NOOP] ex_rng =
   Some (fallen_state\<lparr> agent := fallen_agent\<lparr> agent_y := 500 + 25 / 60, agent_vy := 25 \<rparr>,
                        time_left := 10 - 1 / 60 \<rparr>,
         \<lparr> pickup = False, win = False, fail = Some ''fall'' \<rparr>, ex_rng)"
proof -
  have a: "agent fallen_state = fallen_agent" by (simp add: fallen_state_def)
  have c: "coin fallen_state = coin ex_state2" by (simp add: fallen_state_def)
  show ?thesis
    unfolding step_def a c fallen_step_agent
    using fallen_no_touch
    apply (simp add: Let_def)
    apply (simp add: fallen_state_def ex_state2_def step_events_def default_config_def
        fallen_agent_def)
    done
qed

text \<open>
  C5. As stated the claim fails on a step that picks up the coin: the time left after
  the per-step decrement may be at most 0 while the step reports no timeout, because the
  pickup sets the time left back to the budget before the fail check reads it (the state
  with a hundredth of a second left, below). What holds: the events of a step carry one
  fail field. It is \<open>timeout\<close> when the time left of the new state is at most 0, and
  that time is the input's minus one timestep when the step reports no pickup and the
  timer budget when it reports one; otherwise it is \<open>fall\<close> when the agent's y is at
  least the death line; otherwise it is empty. Timeout is tested first, so the field
  never holds both.
\<close>

theorem fail_reason:
  assumes "step cfg st actions r = Some (st', ev, r')"
  shows "fail ev = (if time_left st' \<le> 0 then Some ''timeout''
                    else if agent_y (agent st') \<ge> death_y cfg then Some ''fall''
                    else None)
         \<and> time_left st' = (if pickup ev then timer_budget cfg else time_left st - dt cfg)"
  using assms
  by (auto simp: step_def Let_def step_events_def split: if_splits option.splits)

theorem fail_reason_witness:
  "step default_config late_state2 [NOOP] ex_rng
     = Some (late_state2\<lparr> time_left := 1 / 100 - 1 / 60 \<rparr>,
             \<lparr> pickup = False, win = False, fail = Some ''timeout'' \<rparr>, ex_rng)
   \<and> time_left (late_state2\<lparr> time_left := 1 / 100 - 1 / 60 \<rparr>)
       = time_left late_state2 - dt default_config
   \<and> time_left (late_state2\<lparr> time_left := 1 / 100 - 1 / 60 \<rparr>) \<le> 0
   \<and> step default_config fallen_state [NOOP] ex_rng
     = Some (fallen_state\<lparr> agent := fallen_agent\<lparr> agent_y := 500 + 25 / 60, agent_vy := 25 \<rparr>,
                          time_left := 10 - 1 / 60 \<rparr>,
             \<lparr> pickup = False, win = False, fail = Some ''fall'' \<rparr>, ex_rng)
   \<and> \<not> time_left fallen_state - dt default_config \<le> 0
   \<and> agent_y (fallen_agent\<lparr> agent_y := 500 + 25 / 60, agent_vy := 25 \<rparr>)
       \<ge> death_y default_config"
  using fail_reason [OF late_step2] fail_reason [OF fallen_step] late_step2 fallen_step
  by (simp add: late_state2_def fallen_state_def ex_state2_def default_config_def
      split: if_splits)

theorem fail_reason_counterexample:
  "step default_config late_state [NOOP] ex_rng
     = Some (ex_state2, ex_events, ex_rng\<lparr> rng_pos := 1 \<rparr>)
   \<and> time_left late_state - dt default_config \<le> 0
   \<and> pickup ex_events
   \<and> fail ex_events = None
   \<and> time_left ex_state2 = timer_budget default_config"
  using late_step
  by (simp add: late_state_def ex_state2_def ex_events_def default_config_def)

text \<open>
  C6. The win flag of a step is set exactly when the collected coins of the new state
  reach the configured threshold, and a step never lowers the count of collected coins.
\<close>

theorem win_flag:
  assumes "step cfg st actions r = Some (st', ev, r')"
  shows "(win ev \<longleftrightarrow> coins_collected st' \<ge> coins_to_win cfg)
         \<and> coins_collected st \<le> coins_collected st'"
  using assms
  by (auto simp: step_def Let_def step_events_def split: if_splits option.splits)

theorem win_flag_witness:
  "step default_config ex_state [NOOP] ex_rng
     = Some (ex_state2, ex_events, ex_rng\<lparr> rng_pos := 1 \<rparr>)
   \<and> \<not> win ex_events \<and> \<not> coins_collected ex_state2 \<ge> coins_to_win default_config
   \<and> coins_collected ex_state \<le> coins_collected ex_state2"
  using win_flag [OF ex_step] ex_step
  by (simp add: ex_state_def ex_state2_def ex_events_def default_config_def)

text \<open>
  C10. A step that reports no pickup leaves the coin (x, y and spawn index), the retained
  last spawn index and the count of collected coins as they were, and the time left is
  the input's minus one timestep.
\<close>

theorem no_pickup_frame:
  assumes "step cfg st actions r = Some (st', ev, r')" and "\<not> pickup ev"
  shows "coin_x (coin st') = coin_x (coin st) \<and> coin_y (coin st') = coin_y (coin st)
         \<and> coin_spawn_index (coin st') = coin_spawn_index (coin st)
         \<and> last_coin_spawn_index st' = last_coin_spawn_index st
         \<and> coins_collected st' = coins_collected st
         \<and> time_left st' = time_left st - dt cfg"
  using assms
  by (auto simp: step_def Let_def step_events_def split: if_splits option.splits)

theorem no_pickup_frame_witness:
  "step default_config ex_state2 [NOOP] ex_rng
     = Some (ex_state2\<lparr> time_left := 10 - 1 / 60 \<rparr>,
             \<lparr> pickup = False, win = False, fail = None \<rparr>, ex_rng)
   \<and> \<not> pickup \<lparr> pickup = False, win = False, fail = None \<rparr>
   \<and> coin (ex_state2\<lparr> time_left := 10 - 1 / 60 \<rparr>) = coin ex_state2
   \<and> time_left (ex_state2\<lparr> time_left := 10 - 1 / 60 \<rparr>)
       = time_left ex_state2 - dt default_config"
proof -
  have n: "\<not> pickup \<lparr> pickup = False, win = False, fail = None \<rparr>" by simp
  show ?thesis using no_pickup_frame [OF ex_step2 n] ex_step2
    by (simp add: ex_state2_def default_config_def)
qed

section \<open>Reset and the coin\<close>

lemma card_residue:
  assumes "i < (6::nat)"
  shows "card {d. d < 6 * k \<and> d mod 6 = i} = k"
proof -
  have "{d. d < 6 * k \<and> d mod 6 = i} = (\<lambda>j. 6 * j + i) ` {..<k}"
  proof (intro set_eqI iffI)
    fix d assume "d \<in> {d. d < 6 * k \<and> d mod 6 = i}"
    then have d: "d < 6 * k" "d mod 6 = i" by simp_all
    have "d = 6 * (d div 6) + i" using d(2) by presburger
    moreover have "d div 6 < k" using d(1) by presburger
    ultimately show "d \<in> (\<lambda>j. 6 * j + i) ` {..<k}" by blast
  next
    fix d assume "d \<in> (\<lambda>j. 6 * j + i) ` {..<k}"
    then obtain j where "j < k" "d = 6 * j + i" by auto
    then show "d \<in> {d. d < 6 * k \<and> d mod 6 = i}" using assms by auto
  qed
  moreover have "inj_on (\<lambda>j. 6 * j + i) {..<k}" by (simp add: inj_on_def)
  ultimately show ?thesis by (simp add: card_image)
qed

lemma reset_negative_seed: "seed < 0 \<Longrightarrow> reset G cfg seed = None"
  by (simp add: reset_def default_rng_def)

lemma reset_default_state:
  assumes "0 \<le> seed"
  shows "\<exists>st r. reset G default_config seed = Some (st, r)
     \<and> agent st = \<lparr> agent_x = 308, agent_y = 288, agent_vx = 0, agent_vy = 0,
                     agent_grounded = True \<rparr>
     \<and> coins_collected st = 0 \<and> time_left st = timer_budget default_config
     \<and> rng_choice \<lparr> rng_draws = G seed, rng_pos = 0 \<rparr> [0, 1, 2, 3, 4, 5]
         = Some (coin_spawn_index (coin st), r)
     \<and> coin_spawn_index (coin st) = int (G seed 0 mod 6)
     \<and> (\<exists>px py pw ph.
           platform_tops default_config ! nat (coin_spawn_index (coin st)) = (px, py, pw, ph)
           \<and> coin_x (coin st) + 8 = real_of_int (px + pw div 2)
           \<and> coin_x (coin st) + 8
               = real_of_int px + real_of_int pw / 2 - (if even pw then 0 else 1 / 2)
           \<and> coin_y (coin st) = real_of_int py - 20)"
proof -
  define i where "i = G seed 0 mod 6"
  have i6: "i < 6" by (simp add: i_def)
  have n: "[0, 1, 2, 3, 4, 5::int] ! i = int i"
    using i6 by (auto simp: less_Suc_eq numeral_eq_Suc)
  have d: "default_rng G seed = Some \<lparr> rng_draws = G seed, rng_pos = 0 \<rparr>"
    using assms by (simp add: default_rng_def)
  have c: "rng_choice \<lparr> rng_draws = G seed, rng_pos = 0 \<rparr> [0, 1, 2, 3, 4, 5]
       = Some (int i, \<lparr> rng_draws = G seed, rng_pos = 1 \<rparr>)"
    using n by (simp add: rng_choice_def i_def)
  obtain px py pw ph where p: "platform_tops default_config ! i = (px, py, pw, ph)"
    using prod_cases4 by blast
  define st where "st = \<lparr> agent = \<lparr> agent_x = 308, agent_y = 288, agent_vx = 0, agent_vy = 0,
                     agent_grounded = True \<rparr>,
       coin = coin_at (px, py, pw, ph) (int i), coins_collected = 0,
       time_left = timer_budget default_config, last_coin_spawn_index = int i \<rparr>"
  have r: "reset G default_config seed = Some (st, \<lparr> rng_draws = G seed, rng_pos = 1 \<rparr>)"
    unfolding reset_def d option.case Let_def length_platform_tops idx_list c
    apply (simp only: option.case prod.case nat_int p)
    apply (simp add: st_def default_config_def)
    done
  have h: "real_of_int (px + pw div 2)
             = real_of_int px + real_of_int pw / 2 - (if even pw then 0 else 1 / 2)"
  proof -
    define q where "q = real_of_int (pw div 2)"
    define m where "m = real_of_int (pw mod 2)"
    have "pw = 2 * (pw div 2) + pw mod 2" by simp
    then have e: "real_of_int pw = 2 * q + m"
      unfolding q_def m_def by (metis of_int_add of_int_mult of_int_numeral)
    have "pw mod 2 = (if even pw then 0 else 1)" by presburger
    then have b: "m = (if even pw then 0 else 1)" unfolding m_def by simp
    have "real_of_int (px + pw div 2) = real_of_int px + q" by (simp add: q_def)
    then show ?thesis using e b by (auto simp: field_simps)
  qed
  show ?thesis
    apply (rule exI [of _ st], rule exI [of _ "\<lparr> rng_draws = G seed, rng_pos = 1 \<rparr>"])
    using r c h p
    apply (simp add: st_def coin_at_def i_def)
    done
qed

text \<open>
  The state \<open>reset\<close> returns when the first draw selects platform 0.
\<close>

lemma ex_reset0:
  "reset zero_draws default_config 0 = Some (ex_state0, ex_rng\<lparr> rng_pos := 1 \<rparr>)"
proof -
  have d: "default_rng zero_draws 0 = Some ex_rng"
    by (simp add: default_rng_def ex_rng_def zero_draws_0)
  have p: "coin_at (platform_tops default_config ! nat 0) 0
             = \<lparr> coin_x = 98, coin_y = 300, coin_spawn_index = 0 \<rparr>"
    by (simp add: coin_at_def platform_tops_def)
  show ?thesis
    unfolding reset_def d option.case Let_def length_platform_tops idx_list zero_choice
    apply (simp only: option.case prod.case p)
    apply (simp add: ex_state0_def ex_agent_def default_config_def)
    done
qed

text \<open>
  C7. As stated, for any seed and with the coin centred on its platform, the claim fails
  (see the two inputs below): \<open>default_rng\<close> raises for a negative seed, so \<open>reset\<close>
  returns no state, and the coin's centre is put at \<open>px + pw div 2\<close>, which is half a
  pixel left of the centre of a platform of odd width. What holds under the default
  configuration: \<open>reset\<close> raises for a negative seed; for every other seed (and every
  stream the generator may produce for it) it returns a state with the agent at x = 308,
  y = 288, both velocities 0 and grounded, no coin collected and the whole timer budget
  left. The coin's index is what \<open>rng.choice\<close> draws from the complete index list 0..5,
  with no index excluded and no weights: it is the generator's first draw modulo 6, so
  that, over the values of that draw, each of the six indices is selected equally often
  (by \<open>k\<close> of the values below \<open>6 * k\<close>): the index is uniform whenever the draw is. The
  coin's centre is at the platform's centre when the width is even and half a pixel left
  of it when the width is odd, and the coin's y is 20 above the platform's top.
\<close>

theorem reset_default:
  "(seed < 0 \<longrightarrow> reset G default_config seed = None)
   \<and> (0 \<le> seed \<longrightarrow>
       (\<exists>st r. reset G default_config seed = Some (st, r)
          \<and> agent st = \<lparr> agent_x = 308, agent_y = 288, agent_vx = 0, agent_vy = 0,
                          agent_grounded = True \<rparr>
          \<and> coins_collected st = 0 \<and> time_left st = timer_budget default_config
          \<and> rng_choice \<lparr> rng_draws = G seed, rng_pos = 0 \<rparr> [0, 1, 2, 3, 4, 5]
              = Some (coin_spawn_index (coin st), r)
          \<and> coin_spawn_index (coin st) = int (G seed 0 mod 6)
          \<and> (\<exists>px py pw ph.
                platform_tops default_config ! nat (coin_spawn_index (coin st))
                  = (px, py, pw, ph)
                \<and> coin_x (coin st) + 8 = real_of_int (px + pw div 2)
                \<and> coin_x (coin st) + 8
                    = real_of_int px + real_of_int pw / 2 - (if even pw then 0 else 1 / 2)
                \<and> coin_y (coin st) = real_of_int py - 20))
       \<and> (\<forall>i < 6. \<forall>k.
             card {d. d < 6 * k
                      \<and> (\<exists>st r. reset (\<lambda>s n. d) default_config seed = Some (st, r)
                                  \<and> coin_spawn_index (coin st) = int i)} = k))"
proof -
  have u: "card {d. d < 6 * k
                    \<and> (\<exists>st r. reset (\<lambda>s n. d) default_config seed = Some (st, r)
                                \<and> coin_spawn_index (coin st) = int i)} = k"
    if s: "0 \<le> seed" and i: "i < 6" for i k
  proof -
    have "(\<exists>st r. reset (\<lambda>s n. d) default_config seed = Some (st, r)
                  \<and> coin_spawn_index (coin st) = int i) \<longleftrightarrow> d mod 6 = i" for d
      using reset_default_state [OF s, of "\<lambda>s n. d"] by auto
    then show ?thesis using card_residue [OF i, of k] by simp
  qed
  show ?thesis
    using reset_negative_seed [of seed G default_config] reset_default_state [of seed G] u
    by blast
qed

theorem reset_default_witness:
  "reset (\<lambda>s n. 1) default_config (- 1) = None
   \<and> (0::int) \<le> 0
   \<and> reset (\<lambda>s n. 1) default_config 0
       = Some (ex_state, \<lparr> rng_draws = (\<lambda>n. 1), rng_pos = 1 \<rparr>)
   \<and> agent ex_state = \<lparr> agent_x = 308, agent_y = 288, agent_vx = 0, agent_vy = 0,
                          agent_grounded = True \<rparr>
   \<and> coin_spawn_index (coin ex_state) = 1
   \<and> platform_tops default_config ! 1 = (213, 320, 214, 40)
   \<and> coin_x (coin ex_state) + 8 = 213 + 214 / 2 \<and> coin_y (coin ex_state) = 320 - 20
   \<and> (1::nat) < 6
   \<and> card {d. d < 6 * 2
               \<and> (\<exists>st r. reset (\<lambda>s n. d) default_config 0 = Some (st, r)
                           \<and> coin_spawn_index (coin st) = int 1)} = 2"
proof -
  have p: "platform_tops default_config ! 1 = (213, 320, 214, 40)"
    by (simp add: platform_tops_def)
  have n: "reset (\<lambda>s n. 1) default_config (- 1) = None"
    using reset_default [of "- 1" "\<lambda>s n. 1"] by simp
  have u: "\<forall>i < 6. \<forall>k.
      card {d. d < 6 * k
               \<and> (\<exists>st r. reset (\<lambda>s n. d) default_config 0 = Some (st, r)
                           \<and> coin_spawn_index (coin st) = int i)} = k"
    using reset_default [of 0 "\<lambda>s n. 1"] by simp
  have c: "card {d. d < 6 * 2
               \<and> (\<exists>st r. reset (\<lambda>s n. d) default_config 0 = Some (st, r)
                           \<and> coin_spawn_index (coin st) = int 1)} = 2"
    using u [rule_format, of 1 2] by simp
  show ?thesis
    using n c ex_reset p by (simp add: ex_state_def ex_agent_def)
qed

theorem reset_default_counterexample:
  "reset zero_draws default_config (- 1) = None
   \<and> reset zero_draws default_config 0 = Some (ex_state0, ex_rng\<lparr> rng_pos := 1 \<rparr>)
   \<and> coin_spawn_index (coin ex_state0) = 0
   \<and> platform_tops default_config ! 0 = (0, 320, 213, 40)
   \<and> coin_x (coin ex_state0) + 8 = 106
   \<and> coin_x (coin ex_state0) + 8 \<noteq> 0 + 213 / 2"
  using ex_reset0 by (simp add: reset_negative_seed ex_state0_def platform_tops_def)



text \<open>
  C4. In every step of an episode that reports a pickup, the spawn index of the new
  coin differs from the spawn index of the coin just collected.
\<close>

theorem anti_repeat:
  assumes "reachable G cfg st" and "step cfg st actions r = Some (st', ev, r')"
    and "pickup ev"
  shows "coin_spawn_index (coin st') \<noteq> coin_spawn_index (coin st)"
proof -
  have e: "coin_spawn_index (coin st) = last_coin_spawn_index st"
    using reachable_coin_ok [OF assms(1)] by (simp add: coin_ok_def)
  have t: "touches_coin cfg (step_agent cfg actions (agent st)) (coin st)"
    using step_pickup_iff [OF assms(2)] assms(3) by simp
  then obtain i where s: "sample_coin_spawn cfg r (last_coin_spawn_index st) = Some (i, r')"
    and c: "coin st' = coin_at (platform_tops cfg ! nat i) i"
    using assms(2) by (auto simp: step_def Let_def split: option.splits)
  have "coin_spawn_index (coin st') = i"
    by (simp add: c coin_at_def split: prod.splits)
  then show ?thesis using sample_coin_spawn_range [OF s] e by simp
qed

theorem anti_repeat_witness:
  "reachable (\<lambda>s n. 1) default_config ex_state
   \<and> step default_config ex_state [NOOP] ex_rng
       = Some (ex_state2, ex_events, ex_rng\<lparr> rng_pos := 1 \<rparr>)
   \<and> pickup ex_events
   \<and> coin_spawn_index (coin ex_state2) = 0 \<and> coin_spawn_index (coin ex_state) = 1"
proof -
  have p: "pickup ex_events" by (simp add: ex_events_def)
  show ?thesis using anti_repeat [OF ex_reachable ex_step p] ex_reachable ex_step p
    by (simp add: ex_state_def ex_state2_def)
qed

section \<open>Containment in the arena\<close>

subsection \<open>The vertical loop leaves the agent clear of every platform\<close>

lemma hits_std:
  assumes "standard_geometry cfg"
  shows "hits cfg a (px, py, pw, ph) \<longleftrightarrow>
     agent_x a < real_of_int px + real_of_int pw \<and> agent_x a + 24 > real_of_int px
     \<and> agent_y a < real_of_int py + real_of_int ph \<and> agent_y a + 32 > real_of_int py"
  using assms by (simp add: hits_def rects_intersect_def standard_geometry_def)

lemma resolve_y_x: "agent_x (resolve_y cfg p a) = agent_x a"
  by (simp add: resolve_y_def split: prod.splits)

lemma resolve_y_all_x: "agent_x (resolve_y_all cfg ps a) = agent_x a"
  by (induction ps arbitrary: a) (simp_all add: resolve_y_x)

lemma at_rest_clear:
  assumes "standard_geometry cfg" and "at_rest a" and "p \<in> set (platform_tops cfg)"
  shows "\<not> hits cfg a p"
  using assms(2,3) by (auto simp: platform_tops_def hits_std [OF assms(1)] at_rest_def)

lemma resolve_y_cases:
  assumes "standard_geometry cfg" and "p \<in> set (platform_tops cfg)"
  shows "(resolve_y cfg p a = a \<and> \<not> hits cfg a p) \<or> at_rest (resolve_y cfg p a)"
proof (cases "hits cfg a p")
  case False
  then show ?thesis by (simp add: resolve_y_def)
next
  case True
  have h: "agent_size_h cfg = 32" using assms(1) by (simp add: standard_geometry_def)
  have "at_rest (resolve_y cfg p a)"
    using True assms(2)
    by (cases "agent_vy a > 0") (auto simp: resolve_y_def platform_tops_def at_rest_def h)
  then show ?thesis by simp
qed

lemma at_rest_stays:
  assumes "standard_geometry cfg"
  shows "at_rest a \<Longrightarrow> set ps \<subseteq> set (platform_tops cfg) \<Longrightarrow> resolve_y_all cfg ps a = a"
proof (induction ps)
  case Nil
  then show ?case by simp
next
  case (Cons p ps)
  have "\<not> hits cfg a p" using at_rest_clear [OF assms Cons.prems(1)] Cons.prems(2) by simp
  then have "resolve_y cfg p a = a" by (simp add: resolve_y_def)
  then show ?case using Cons by simp
qed

lemma resolve_y_all_cases:
  assumes "standard_geometry cfg"
  shows "set ps \<subseteq> set (platform_tops cfg) \<Longrightarrow>
     (resolve_y_all cfg ps a = a \<and> (\<forall>p \<in> set ps. \<not> hits cfg a p))
     \<or> at_rest (resolve_y_all cfg ps a)"
proof (induction ps arbitrary: a)
  case Nil
  then show ?case by simp
next
  case (Cons p ps)
  have p: "p \<in> set (platform_tops cfg)" and ps: "set ps \<subseteq> set (platform_tops cfg)"
    using Cons.prems by simp_all
  show ?case
  proof (cases "at_rest (resolve_y cfg p a)")
    case True
    then show ?thesis using at_rest_stays [OF assms True ps] by simp
  next
    case False
    then have "resolve_y cfg p a = a" "\<not> hits cfg a p"
      using resolve_y_cases [OF assms p, of a] by auto
    then show ?thesis using Cons.IH [OF ps, of a] by auto
  qed
qed

lemma resolve_y_all_clear:
  assumes "standard_geometry cfg"
  shows "clear_of_platforms cfg (resolve_y_all cfg (platform_tops cfg) a)"
  using resolve_y_all_cases [OF assms subset_refl, of a] at_rest_clear [OF assms]
  by (auto simp: clear_of_platforms_def)

subsection \<open>The horizontal loop keeps the agent inside the arena\<close>

lemma resolve_x_y: "agent_y (resolve_x cfg p a) = agent_y a"
  by (simp add: resolve_x_def split: prod.splits)

lemma step_move_x_y: "agent_y (step_move_x cfg a) = agent_y a"
  by (simp add: step_move_x_def Let_def)

lemma clear_std:
  assumes "standard_geometry cfg" and "clear_of_platforms cfg a"
  shows "\<not> hits cfg a (0, 320, 213, 40)" "\<not> hits cfg a (213, 320, 214, 40)"
    "\<not> hits cfg a (427, 320, 213, 40)" "\<not> hits cfg a (200, 240, 240, 15)"
    "\<not> hits cfg a (0, 160, 200, 15)" "\<not> hits cfg a (440, 160, 200, 15)"
  using assms(2) by (simp_all add: clear_of_platforms_def platform_tops_def)

lemma resolve_x_miss: "\<not> hits cfg b p \<Longrightarrow> resolve_x cfg p b = b"
  by (simp add: resolve_x_def)

lemma loop_in_arena:
  assumes std: "standard_geometry cfg"
    and x: "0 \<le> agent_x b" "agent_x b \<le> 616"
    and fl: "\<not> (288 < agent_y b \<and> agent_y b < 360)"
    and arms: "128 < agent_y b \<Longrightarrow> agent_y b < 175 \<Longrightarrow>
        (agent_x b < 200 \<longrightarrow> \<not> agent_vx b > 0) \<and> (agent_x b > 416 \<longrightarrow> agent_vx b > 0)"
  shows "in_arena cfg (resolve_x_all cfg (platform_tops cfg) b)"
proof -
  have sz: "W cfg = 640" "agent_size_w cfg = 24" "agent_size_h cfg = 32"
    using std by (simp_all add: standard_geometry_def)
  note hs = hits_std [OF std]
  have f0: "resolve_x cfg (0, 320, 213, 40) b = b"
    using fl by (intro resolve_x_miss) (auto simp: hs)
  have f1: "resolve_x cfg (213, 320, 214, 40) b = b"
    using fl by (intro resolve_x_miss) (auto simp: hs)
  have f2: "resolve_x cfg (427, 320, 213, 40) b = b"
    using fl by (intro resolve_x_miss) (auto simp: hs)
  define b3 where "b3 = resolve_x cfg (200, 240, 240, 15) b"
  define b4 where "b4 = resolve_x cfg (0, 160, 200, 15) b3"
  define b5 where "b5 = resolve_x cfg (440, 160, 200, 15) b4"
  have unroll: "resolve_x_all cfg (platform_tops cfg) b = b5"
    by (simp add: platform_tops_def f0 f1 f2 b3_def b4_def b5_def)
  have b3y: "agent_y b3 = agent_y b" by (simp add: b3_def resolve_x_y)
  have b4y: "agent_y b4 = agent_y b" by (simp add: b4_def b3y resolve_x_y)
  consider (mid) "208 < agent_y b \<and> agent_y b < 255"
    | (arms) "128 < agent_y b \<and> agent_y b < 175"
    | (none) "\<not> (208 < agent_y b \<and> agent_y b < 255)" "\<not> (128 < agent_y b \<and> agent_y b < 175)"
    by blast
  then have "0 \<le> agent_x b5 \<and> agent_x b5 \<le> 616"
  proof cases
    case mid
    have x3: "0 \<le> agent_x b3 \<and> agent_x b3 \<le> 616"
      using x by (simp add: b3_def resolve_x_def sz)
    have "b4 = b3" unfolding b4_def using mid b3y by (intro resolve_x_miss) (auto simp: hs)
    moreover have "b5 = b4" unfolding b5_def using mid b4y by (intro resolve_x_miss) (auto simp: hs)
    ultimately show ?thesis using x3 by simp
  next
    case arms
    have e3: "b3 = b" unfolding b3_def using arms by (intro resolve_x_miss) (auto simp: hs)
    have dir: "agent_x b < 200 \<longrightarrow> \<not> agent_vx b > 0" "agent_x b > 416 \<longrightarrow> agent_vx b > 0"
      using assms(5) arms by simp_all
    show ?thesis
    proof (cases "agent_x b < 200")
      case True
      then have h4: "hits cfg b (0, 160, 200, 15)" using arms x by (simp add: hs)
      have b4: "b4 = b\<lparr> agent_x := 200, agent_vx := 0 \<rparr>"
        using h4 dir(1) True by (simp add: b4_def e3 resolve_x_def)
      have "b5 = b4" unfolding b5_def by (intro resolve_x_miss) (auto simp: hs b4)
      then show ?thesis by (simp add: b4)
    next
      case False
      then have "b4 = b" unfolding b4_def e3 by (intro resolve_x_miss) (auto simp: hs)
      then show ?thesis using x False dir(2)
        by (simp add: b5_def resolve_x_def hs sz)
    qed
  next
    case none
    have e3: "b3 = b" unfolding b3_def using none by (intro resolve_x_miss) (auto simp: hs)
    have e4: "b4 = b" unfolding b4_def e3 using none by (intro resolve_x_miss) (auto simp: hs)
    have "b5 = b" unfolding b5_def e4 using none by (intro resolve_x_miss) (auto simp: hs)
    then show ?thesis using x by simp
  qed
  then show ?thesis by (simp add: in_arena_def unroll sz)
qed

lemma horizontal_in_arena:
  assumes std: "standard_geometry cfg"
    and ar: "in_arena cfg a" and cl: "clear_of_platforms cfg a"
    and tr: "agent_vx a * dt cfg \<le> 200"
  shows "in_arena cfg (resolve_x_all cfg (platform_tops cfg) (step_move_x cfg a))"
proof -
  define x where "x = agent_x a"
  define y where "y = agent_y a"
  define v where "v = agent_vx a"
  define d where "d = agent_vx a * dt cfg"
  have sz: "W cfg = 640" "agent_size_w cfg = 24" "agent_size_h cfg = 32" "0 \<le> dt cfg"
    using std by (simp_all add: standard_geometry_def)
  have x: "0 \<le> x" "x \<le> 616" using ar by (simp_all add: in_arena_def sz x_def)
  have dpos: "v > 0 \<longrightarrow> 0 \<le> d" using sz(4) by (simp add: d_def v_def)
  have dneg: "\<not> v > 0 \<longrightarrow> d \<le> 0"
    using sz(4) by (simp add: d_def v_def mult_nonpos_nonneg not_less)
  have d200: "d \<le> 200" using tr by (simp add: d_def)
  note c = clear_std [OF std cl, unfolded hits_std [OF std], folded x_def y_def]
  define a1 where "a1 = step_move_x cfg a"
  have a1: "a1 = (if x + d < 0 then a\<lparr> agent_x := 0, agent_vx := 0 \<rparr>
                 else if x + d > 616 then a\<lparr> agent_x := 616, agent_vx := 0 \<rparr>
                 else a\<lparr> agent_x := x + d \<rparr>)"
    by (simp add: a1_def step_move_x_def Let_def sz x_def d_def)
  have y1: "agent_y a1 = y" by (simp add: a1 y_def)
  have x1: "0 \<le> agent_x a1" "agent_x a1 \<le> 616" by (simp_all add: a1)
  have fl: "\<not> (288 < agent_y a1 \<and> agent_y a1 < 360)"
    unfolding y1 using c(1,2,3) x by auto
  have arms: "(agent_x a1 < 200 \<longrightarrow> \<not> agent_vx a1 > 0) \<and> (agent_x a1 > 416 \<longrightarrow> agent_vx a1 > 0)"
    if "128 < agent_y a1" "agent_y a1 < 175"
  proof -
    have r: "200 \<le> x" "x \<le> 416" using that c(5,6) x unfolding y1 by auto
    show ?thesis
      using r dpos dneg d200 by (auto simp: a1 v_def [symmetric])
  qed
  show ?thesis
    unfolding a1_def [symmetric]
    using std x1 fl arms by (rule loop_in_arena)
qed

subsection \<open>One step, and every state of an episode\<close>

lemma process_actions_xy:
  "agent_x (fst (process_actions cfg acts (a, h))) = agent_x a
   \<and> agent_y (fst (process_actions cfg acts (a, h))) = agent_y a"
  by (induction acts arbitrary: a h) simp_all

lemma step_input_xy:
  "agent_x (step_input cfg acts a) = agent_x a" "agent_y (step_input cfg acts a) = agent_y a"
proof -
  obtain a1 h where p: "process_actions cfg acts (a, False) = (a1, h)" by fastforce
  have "agent_x a1 = agent_x a" "agent_y a1 = agent_y a"
    using process_actions_xy [of cfg acts a False] by (simp_all add: p)
  then show "agent_x (step_input cfg acts a) = agent_x a"
    "agent_y (step_input cfg acts a) = agent_y a"
    by (simp_all add: step_input_def Let_def p)
qed

lemma np_clip_abs: "\<bar>np_clip v (- m) m\<bar> \<le> \<bar>m\<bar>"
  unfolding np_clip_def by linarith

lemma step_input_travel:
  assumes "standard_geometry cfg"
  shows "agent_vx (step_input cfg acts a) * dt cfg \<le> 200"
proof -
  obtain a1 h where p: "process_actions cfg acts (a, False) = (a1, h)" by fastforce
  obtain v where v: "agent_vx (step_input cfg acts a) = np_clip v (- vx_max cfg) (vx_max cfg)"
    by (simp add: step_input_def Let_def p)
  have "\<bar>np_clip v (- vx_max cfg) (vx_max cfg) * dt cfg\<bar> \<le> \<bar>vx_max cfg\<bar> * \<bar>dt cfg\<bar>"
    unfolding abs_mult by (intro mult_right_mono np_clip_abs) simp
  also have "\<dots> = \<bar>vx_max cfg * dt cfg\<bar>" by (simp only: abs_mult)
  also have "\<dots> \<le> 200" using assms unfolding standard_geometry_def by blast
  finally show ?thesis unfolding v by linarith
qed

lemma hits_cong: "agent_x a = agent_x b \<Longrightarrow> agent_y a = agent_y b \<Longrightarrow> hits cfg a p = hits cfg b p"
  by (simp add: hits_def split: prod.splits)

lemma process_jump_x: "agent_x (process_jump cfg acts a) = agent_x a"
  by (induction acts) simp_all

lemma step_move_y_x: "agent_x (step_move_y cfg acts a) = agent_x a"
  by (simp add: step_move_y_def Let_def process_jump_x)

lemma step_agent_inv:
  assumes std: "standard_geometry cfg"
    and ar: "in_arena cfg a" and cl: "clear_of_platforms cfg a"
  shows "in_arena cfg (step_agent cfg acts a) \<and> clear_of_platforms cfg (step_agent cfg acts a)"
proof -
  define a1 where "a1 = step_input cfg acts a"
  have ar1: "in_arena cfg a1" using ar by (simp add: in_arena_def a1_def step_input_xy)
  have cl1: "clear_of_platforms cfg a1"
    using cl hits_cong [of a1 a cfg] by (simp add: clear_of_platforms_def a1_def step_input_xy)
  have tr: "agent_vx a1 * dt cfg \<le> 200" unfolding a1_def using std by (rule step_input_travel)
  have "in_arena cfg (resolve_x_all cfg (platform_tops cfg) (step_move_x cfg a1))"
    using std ar1 cl1 tr by (rule horizontal_in_arena)
  then have "in_arena cfg (step_agent cfg acts a)"
    by (simp add: in_arena_def step_agent_def a1_def resolve_y_all_x step_move_y_x)
  moreover have "clear_of_platforms cfg (step_agent cfg acts a)"
    unfolding step_agent_def using std by (rule resolve_y_all_clear)
  ultimately show ?thesis by simp
qed

lemma reset_agent_inv:
  assumes std: "standard_geometry cfg" and "reset G cfg seed = Some (st, r)"
  shows "in_arena cfg (agent st) \<and> clear_of_platforms cfg (agent st)"
proof -
  have a: "agent st = \<lparr> agent_x = real_of_int (W cfg div 2 - agent_size_w cfg div 2),
                agent_y = real_of_int (320 - agent_size_h cfg),
                agent_vx = 0, agent_vy = 0, agent_grounded = True \<rparr>"
    using assms(2) by (auto simp: reset_def Let_def split: option.splits)
  have sz: "W cfg = 640" "agent_size_w cfg = 24" "agent_size_h cfg = 32"
    using std by (simp_all add: standard_geometry_def)
  show ?thesis
    by (simp add: a sz in_arena_def clear_of_platforms_def platform_tops_def hits_std [OF std])
qed

lemma reachable_agent_inv:
  assumes "standard_geometry cfg"
  shows "reachable G cfg st \<Longrightarrow> in_arena cfg (agent st) \<and> clear_of_platforms cfg (agent st)"
proof (induction rule: reachable.induct)
  case (reach_reset seed st r)
  then show ?case using reset_agent_inv [OF assms] by blast
next
  case (reach_step st actions r st' ev r')
  then show ?case using step_agent_inv [OF assms] step_agent_eq by metis
qed

lemma default_standard: "standard_geometry default_config"
  by (simp add: standard_geometry_def default_config_def)

subsection \<open>Bounds on the motion under the default configuration\<close>

lemma process_actions_vy:
  "agent_vy (fst (process_actions cfg acts (a, h))) = agent_vy a
   \<and> agent_grounded (fst (process_actions cfg acts (a, h))) = agent_grounded a"
  by (induction acts arbitrary: a h) simp_all

lemma step_input_vy:
  "agent_vy (step_input cfg acts a) = agent_vy a"
  "agent_grounded (step_input cfg acts a) = agent_grounded a"
proof -
  obtain a1 h where p: "process_actions cfg acts (a, False) = (a1, h)" by fastforce
  have "agent_vy a1 = agent_vy a" "agent_grounded a1 = agent_grounded a"
    using process_actions_vy [of cfg acts a False] by (simp_all add: p)
  then show "agent_vy (step_input cfg acts a) = agent_vy a"
    "agent_grounded (step_input cfg acts a) = agent_grounded a"
    by (simp_all add: step_input_def Let_def p)
qed

lemma step_input_speed: "\<bar>agent_vx (step_input cfg acts a)\<bar> \<le> \<bar>vx_max cfg\<bar>"
proof -
  obtain a1 h where p: "process_actions cfg acts (a, False) = (a1, h)" by fastforce
  obtain v where v: "agent_vx (step_input cfg acts a) = np_clip v (- vx_max cfg) (vx_max cfg)"
    by (simp add: step_input_def Let_def p)
  show ?thesis unfolding v by (rule np_clip_abs)
qed

lemma step_move_x_rest:
  "agent_vy (step_move_x cfg a) = agent_vy a"
  "agent_grounded (step_move_x cfg a) = agent_grounded a"
  "\<bar>agent_vx (step_move_x cfg a)\<bar> \<le> \<bar>agent_vx a\<bar>"
  by (simp_all add: step_move_x_def Let_def)

lemma resolve_x_rest:
  "agent_vy (resolve_x cfg p a) = agent_vy a"
  "agent_grounded (resolve_x cfg p a) = agent_grounded a"
  "\<bar>agent_vx (resolve_x cfg p a)\<bar> \<le> \<bar>agent_vx a\<bar>"
  by (simp_all add: resolve_x_def split: prod.splits)

lemma resolve_x_all_rest:
  "agent_y (resolve_x_all cfg ps a) = agent_y a
   \<and> agent_vy (resolve_x_all cfg ps a) = agent_vy a
   \<and> agent_grounded (resolve_x_all cfg ps a) = agent_grounded a
   \<and> \<bar>agent_vx (resolve_x_all cfg ps a)\<bar> \<le> \<bar>agent_vx a\<bar>"
proof (induction ps arbitrary: a)
  case Nil
  then show ?case by simp
next
  case (Cons p ps)
  show ?case
    using Cons [of "resolve_x cfg p a"] resolve_x_rest [of cfg p a] resolve_x_y [of cfg p a]
    by simp
qed

lemma process_jump_cases:
  "process_jump cfg acts a = a
   \<or> (agent_grounded a \<and> process_jump cfg acts a = a\<lparr> agent_vy := jump_impulse cfg \<rparr>)"
  by (induction acts) auto

lemma resolve_y_vx: "agent_vx (resolve_y cfg p a) = agent_vx a"
  by (simp add: resolve_y_def split: prod.splits)

lemma resolve_y_all_vx: "agent_vx (resolve_y_all cfg ps a) = agent_vx a"
  by (induction ps arbitrary: a) (simp_all add: resolve_y_vx)

lemma resolve_y_all_first:
  assumes "standard_geometry cfg"
  shows "set ps \<subseteq> set (platform_tops cfg) \<Longrightarrow>
     (resolve_y_all cfg ps a = a \<and> (\<forall>p \<in> set ps. \<not> hits cfg a p))
     \<or> (\<exists>p \<in> set ps. hits cfg a p \<and> resolve_y_all cfg ps a = resolve_y cfg p a)"
proof (induction ps)
  case Nil
  then show ?case by simp
next
  case (Cons p ps)
  have p: "p \<in> set (platform_tops cfg)" and ps: "set ps \<subseteq> set (platform_tops cfg)"
    using Cons.prems by simp_all
  show ?case
  proof (cases "hits cfg a p")
    case True
    then have "at_rest (resolve_y cfg p a)"
      using resolve_y_cases [OF assms p, of a] by auto
    then have "resolve_y_all cfg ps (resolve_y cfg p a) = resolve_y cfg p a"
      using at_rest_stays [OF assms _ ps] by blast
    then show ?thesis using True by simp
  next
    case False
    then have "resolve_y cfg p a = a" by (simp add: resolve_y_def)
    then show ?thesis using Cons.IH [OF ps] False by auto
  qed
qed

lemma energy_speed:
  fixes v y :: real
  assumes "v\<^sup>2 \<le> 3000 * y - 109000" and "y \<le> 288"
  shows "\<bar>v\<bar> \<le> 870"
proof -
  have "v\<^sup>2 \<le> (870::real)\<^sup>2" using assms by simp
  then have "\<bar>v\<bar> \<le> \<bar>870::real\<bar>" by (simp only: abs_le_square_iff)
  then show ?thesis by simp
qed

lemma energy_fall:
  fixes v y :: real
  assumes "v\<^sup>2 \<le> 3000 * y - 109000"
  shows "(v + 25)\<^sup>2 \<le> 3000 * (y + (v + 25) / 60) - 109000"
proof -
  have "(v + 25)\<^sup>2 = v\<^sup>2 + 50 * v + 625" by (simp add: power2_eq_square algebra_simps)
  moreover have "3000 * (y + (v + 25) / 60) = 3000 * y + 50 * v + 1250" by simp
  ultimately show ?thesis using assms by linarith
qed

lemma move_y_default:
  "step_move_y default_config acts a
     = (let v = agent_vy (process_jump default_config acts (a\<lparr> agent_vy := agent_vy a + 25 \<rparr>))
        in a\<lparr> agent_vy := v, agent_grounded := False, agent_y := agent_y a + v / 60 \<rparr>)"
  using process_jump_cases [of default_config acts "a\<lparr> agent_vy := agent_vy a + 25 \<rparr>"]
  by (auto simp: step_move_y_def Let_def default_config_def)

lemma move_y_speed:
  "agent_vy (process_jump default_config acts (a\<lparr> agent_vy := agent_vy a + 25 \<rparr>)) = agent_vy a + 25
   \<or> (agent_grounded a
       \<and> agent_vy (process_jump default_config acts (a\<lparr> agent_vy := agent_vy a + 25 \<rparr>)) = - 500)"
  using process_jump_cases [of default_config acts "a\<lparr> agent_vy := agent_vy a + 25 \<rparr>"]
  by (auto simp: default_config_def)

lemma floor_hit:
  assumes "0 \<le> agent_x a" "agent_x a \<le> 616" "288 < agent_y a" "agent_y a < 360"
  shows "\<exists>p \<in> set (platform_tops default_config). hits default_config a p"
proof -
  note hs = hits_std [OF default_standard]
  consider "agent_x a < 213" | "213 \<le> agent_x a" "agent_x a < 427" | "427 \<le> agent_x a"
    by linarith
  then show ?thesis
  proof cases
    case 1
    then have "hits default_config a (0, 320, 213, 40)" using assms by (simp add: hs)
    then show ?thesis by (auto simp: platform_tops_def)
  next
    case 2
    then have "hits default_config a (213, 320, 214, 40)" using assms by (simp add: hs)
    then show ?thesis by (auto simp: platform_tops_def)
  next
    case 3
    then have "hits default_config a (427, 320, 213, 40)" using assms by (simp add: hs)
    then show ?thesis by (auto simp: platform_tops_def)
  qed
qed

lemma landing:
  assumes p: "p \<in> set (platform_tops default_config)" and h: "hits default_config a p"
    and up: "\<not> agent_vy a > 0 \<longrightarrow> agent_y a \<le> 288"
  shows "agent_vy (resolve_y default_config p a) = 0
     \<and> 128 \<le> agent_y (resolve_y default_config p a)
     \<and> agent_y (resolve_y default_config p a) \<le> 288
     \<and> (agent_grounded (resolve_y default_config p a) \<longrightarrow> agent_grounded a \<or> agent_vy a > 0)"
proof (cases "agent_vy a > 0")
  case True
  then show ?thesis using p h
    by (auto simp: resolve_y_def platform_tops_def default_config_def)
next
  case False
  then have y: "agent_y a \<le> 288" using up by simp
  note hs = hits_std [OF default_standard]
  have "p \<in> {(200, 240, 240, 15), (0, 160, 200, 15), (440, 160, 200, 15)}"
    using p h y by (auto simp: platform_tops_def hs)
  then show ?thesis using False h
    by (auto simp: resolve_y_def)
qed

lemma step_agent_agent_inv:
  assumes inv: "agent_inv a"
  shows "agent_inv (step_agent default_config acts a)"
proof -
  note std = default_standard
  let ?D = "default_config"
  define a1 where "a1 = step_input ?D acts a"
  define a3 where "a3 = resolve_x_all ?D (platform_tops ?D) (step_move_x ?D a1)"
  define v where "v = agent_vy (process_jump ?D acts (a3\<lparr> agent_vy := agent_vy a3 + 25 \<rparr>))"
  define a4 where "a4 = a3\<lparr> agent_vy := v, agent_grounded := False,
                              agent_y := agent_y a3 + v / 60 \<rparr>"
  define a5 where "a5 = resolve_y_all ?D (platform_tops ?D) a4"
  have m: "step_move_y ?D acts a3 = a4"
    by (simp only: move_y_default Let_def a4_def v_def)
  have s5: "step_agent ?D acts a = a5"
    by (simp only: step_agent_def a5_def m [symmetric] a3_def a1_def)
  have ar: "in_arena ?D a" and cl: "clear_of_platforms ?D a" and y: "agent_y a \<le> 288"
    and en: "(agent_vy a)\<^sup>2 \<le> 3000 * agent_y a - 109000"
    and gr: "agent_grounded a \<longrightarrow> 128 \<le> agent_y a"
    using inv by (simp_all add: agent_inv_def)
  have ar1: "in_arena ?D a1" using ar by (simp add: in_arena_def a1_def step_input_xy)
  have cl1: "clear_of_platforms ?D a1"
    using cl hits_cong [of a1 a ?D] by (simp add: clear_of_platforms_def a1_def step_input_xy)
  have tr: "agent_vx a1 * dt ?D \<le> 200"
    unfolding a1_def using std by (rule step_input_travel)
  have ar3: "in_arena ?D a3"
    unfolding a3_def using std ar1 cl1 tr by (rule horizontal_in_arena)
  have vm: "vx_max ?D = 250" by (simp add: default_config_def)
  have vx1: "\<bar>agent_vx a1\<bar> \<le> 250"
    using step_input_speed [of ?D acts a] unfolding vm a1_def by simp
  have r3: "agent_y a3 = agent_y a" "agent_vy a3 = agent_vy a"
    "agent_grounded a3 = agent_grounded a" "\<bar>agent_vx a3\<bar> \<le> 250"
    using resolve_x_all_rest [of ?D "platform_tops ?D" "step_move_x ?D a1"]
      step_move_x_rest [of ?D a1] step_move_x_y [of ?D a1] vx1
    by (simp_all add: a3_def a1_def step_input_xy step_input_vy)
  have vc: "v = agent_vy a + 25 \<or> (agent_grounded a \<and> v = - 500)"
    using move_y_speed [of acts a3] by (simp add: v_def r3)
  have sp: "\<bar>agent_vy a\<bar> \<le> 870" using en y by (rule energy_speed)
  have x4: "agent_x a4 = agent_x a3" and vx4: "agent_vx a4 = agent_vx a3"
    and y4: "agent_y a4 = agent_y a + v / 60" and vy4: "agent_vy a4 = v"
    and g4: "\<not> agent_grounded a4"
    by (simp_all add: a4_def r3)
  have en4: "v\<^sup>2 \<le> 3000 * (agent_y a + v / 60) - 109000"
  proof (cases "v = agent_vy a + 25")
    case True
    then show ?thesis using energy_fall [OF en] by simp
  next
    case False
    then have "agent_grounded a" "v = - 500" using vc by simp_all
    then show ?thesis using gr by simp
  qed
  have v900: "v \<le> 900" using vc sp by auto
  have y360: "agent_y a4 < 360" using y v900 by (simp add: y4)
  have up: "\<not> v > 0 \<longrightarrow> agent_y a4 \<le> 288"
  proof
    assume "\<not> v > 0"
    then have "v / 60 \<le> 0" by simp
    then show "agent_y a4 \<le> 288" using y by (simp add: y4)
  qed
  have sz: "real_of_int (W ?D - agent_size_w ?D) = 616" by (simp add: default_config_def)
  have x4b: "0 \<le> agent_x a4" "agent_x a4 \<le> 616"
    using ar3 unfolding in_arena_def sz x4 by simp_all
  have fin: "agent_y a5 \<le> 288 \<and> (agent_vy a5)\<^sup>2 \<le> 3000 * agent_y a5 - 109000
       \<and> (agent_grounded a5 \<longrightarrow> 128 \<le> agent_y a5)"
    using resolve_y_all_first [OF std subset_refl, of a4, folded a5_def]
  proof (elim disjE conjE bexE)
    assume e: "a5 = a4" and n: "\<forall>p \<in> set (platform_tops ?D). \<not> hits ?D a4 p"
    have "agent_y a4 \<le> 288"
    proof (rule ccontr)
      assume "\<not> agent_y a4 \<le> 288"
      then have "\<exists>p \<in> set (platform_tops ?D). hits ?D a4 p"
        using x4b y360 by (intro floor_hit) simp_all
      then show False using n by simp
    qed
    then show ?thesis using en4 g4 by (simp add: e y4 vy4)
  next
    fix p assume p: "p \<in> set (platform_tops ?D)" and h: "hits ?D a4 p"
      and e: "a5 = resolve_y ?D p a4"
    have "agent_vy a5 = 0 \<and> 128 \<le> agent_y a5 \<and> agent_y a5 \<le> 288"
      unfolding e using landing [OF p h] up by (simp add: vy4)
    then show ?thesis by simp
  qed
  have ar5: "in_arena ?D a5"
    using ar3 by (simp add: in_arena_def a5_def resolve_y_all_x x4)
  have cl5: "clear_of_platforms ?D a5"
    unfolding a5_def using std by (rule resolve_y_all_clear)
  have vx5: "\<bar>agent_vx a5\<bar> \<le> 250"
    using r3(4) by (simp add: a5_def resolve_y_all_vx vx4)
  show ?thesis
    unfolding s5 agent_inv_def using ar5 cl5 vx5 fin by simp
qed

lemma reset_agent_inv_default:
  assumes "reset G default_config seed = Some (st, r)"
  shows "agent_inv (agent st)"
proof -
  have a: "agent st = \<lparr> agent_x = 308, agent_y = 288, agent_vx = 0, agent_vy = 0,
                         agent_grounded = True \<rparr>"
    using assms by (auto simp: reset_def Let_def default_config_def split: option.splits)
  show ?thesis
    using reset_agent_inv [OF default_standard assms]
    by (simp add: agent_inv_def a)
qed

lemma reachable_agent_inv_default:
  "reachable G default_config st \<Longrightarrow> agent_inv (agent st)"
proof (induction rule: reachable.induct)
  case (reach_reset seed st r)
  then show ?case by (rule reset_agent_inv_default)
next
  case (reach_step st actions r st' ev r')
  then show ?case using step_agent_agent_inv step_agent_eq by metis
qed

lemma agent_inv_bounds:
  assumes "agent_inv a"
  shows "0 \<le> agent_x a \<and> agent_x a \<le> 616 \<and> 36 \<le> agent_y a \<and> agent_y a \<le> 288
         \<and> \<bar>agent_vx a\<bar> \<le> 250 \<and> \<bar>agent_vy a\<bar> \<le> 870"
proof -
  have en: "(agent_vy a)\<^sup>2 \<le> 3000 * agent_y a - 109000" and y: "agent_y a \<le> 288"
    using assms by (simp_all add: agent_inv_def)
  have "0 \<le> (agent_vy a)\<^sup>2" by simp
  then have "36 \<le> agent_y a" using en by linarith
  moreover have "\<bar>agent_vy a\<bar> \<le> 870" using en y by (rule energy_speed)
  ultimately show ?thesis
    using assms by (simp add: agent_inv_def in_arena_def default_config_def)
qed

subsection \<open>The sample motions, evaluated\<close>

lemma jump_input:
  "step_input default_config [RIGHT, JUMP] ex_agent = ex_agent\<lparr> agent_vx := 50 \<rparr>"
  by (simp add: step_input_def default_config_def ex_agent_def LEFT_def RIGHT_def JUMP_def
      np_clip_def)

lemma jump_move_x: "step_move_x default_config (ex_agent\<lparr> agent_vx := 50 \<rparr>)
    = ex_agent\<lparr> agent_x := 308 + 50 / 60, agent_vx := 50 \<rparr>"
  by (simp add: step_move_x_def default_config_def ex_agent_def)

lemma jump_resolve_x:
  "resolve_x_all default_config (platform_tops default_config)
     (ex_agent\<lparr> agent_x := 308 + 50 / 60, agent_vx := 50 \<rparr>)
   = ex_agent\<lparr> agent_x := 308 + 50 / 60, agent_vx := 50 \<rparr>"
  by (simp add: platform_tops_def resolve_x_def hits_def rects_intersect_def
      default_config_def ex_agent_def)

lemma jump_move_y: "step_move_y default_config [RIGHT, JUMP]
     (ex_agent\<lparr> agent_x := 308 + 50 / 60, agent_vx := 50 \<rparr>) = jump_agent"
  by (simp add: step_move_y_def default_config_def ex_agent_def jump_agent_def
      RIGHT_def JUMP_def)

lemma jump_resolve_y:
  "resolve_y_all default_config (platform_tops default_config) jump_agent = jump_agent"
  by (simp add: platform_tops_def resolve_y_def hits_def rects_intersect_def
      default_config_def jump_agent_def)

lemma jump_step_agent: "step_agent default_config [RIGHT, JUMP] ex_agent = jump_agent"
  by (simp only: step_agent_def jump_input jump_move_x jump_resolve_x jump_move_y
      jump_resolve_y)

lemma jump_touch: "touches_coin default_config jump_agent (coin ex_state)"
  by (simp add: touches_coin_def rects_intersect_def default_config_def jump_agent_def
      ex_state_def)

lemma jump_step: "step default_config ex_state [RIGHT, JUMP] ex_rng =
   Some (ex_state2\<lparr> agent := jump_agent \<rparr>, ex_events, ex_rng\<lparr> rng_pos := 1 \<rparr>)"
proof -
  have a: "agent ex_state = ex_agent" by (simp add: ex_state_def)
  have l: "last_coin_spawn_index ex_state = 1" by (simp add: ex_state_def)
  show ?thesis
    unfolding step_def a jump_step_agent
    using jump_touch
    apply (simp add: Let_def l ex_sample)
    apply (simp add: ex_state_def ex_state2_def ex_events_def step_events_def ex_coin
        default_config_def jump_agent_def)
    done
qed

lemma wall_input: "step_input default_config [LEFT] wall_agent = wall_agent"
  by (simp add: step_input_def default_config_def wall_agent_def LEFT_def np_clip_def)

lemma wall_move_x:
  "step_move_x default_config wall_agent = wall_agent\<lparr> agent_vx := 0 \<rparr>"
  by (simp add: step_move_x_def default_config_def wall_agent_def)

lemma wall_resolve_x:
  "resolve_x_all default_config (platform_tops default_config) (wall_agent\<lparr> agent_vx := 0 \<rparr>)
   = wall_agent\<lparr> agent_vx := 0 \<rparr>"
  by (simp add: platform_tops_def resolve_x_def hits_def rects_intersect_def
      default_config_def wall_agent_def)

lemma wall_move_y: "step_move_y default_config [LEFT] (wall_agent\<lparr> agent_vx := 0 \<rparr>)
    = wall_agent\<lparr> agent_vx := 0, agent_y := 288 + 25 / 60, agent_vy := 25,
                   agent_grounded := False \<rparr>"
  by (simp add: step_move_y_def default_config_def wall_agent_def LEFT_def JUMP_def)

lemma wall_resolve_y: "resolve_y_all default_config (platform_tops default_config)
     (wall_agent\<lparr> agent_vx := 0, agent_y := 288 + 25 / 60, agent_vy := 25,
                  agent_grounded := False \<rparr>)
    = wall_agent\<lparr> agent_vx := 0 \<rparr>"
  by (simp add: platform_tops_def resolve_y_def hits_def rects_intersect_def
      default_config_def wall_agent_def)

lemma wall_step_agent:
  "step_agent default_config [LEFT] wall_agent = wall_agent\<lparr> agent_vx := 0 \<rparr>"
  by (simp only: step_agent_def wall_input wall_move_x wall_resolve_x wall_move_y
      wall_resolve_y)

lemma wall_no_touch:
  "\<not> touches_coin default_config (wall_agent\<lparr> agent_vx := 0 \<rparr>) (coin ex_state2)"
  by (simp add: touches_coin_def rects_intersect_def default_config_def wall_agent_def
      ex_state2_def)

lemma wall_step: "step default_config wall_state [LEFT] ex_rng =
   Some (wall_state\<lparr> agent := wall_agent\<lparr> agent_vx := 0 \<rparr>, time_left := 10 - 1 / 60 \<rparr>,
         \<lparr> pickup = False, win = False, fail = None \<rparr>, ex_rng)"
proof -
  have a: "agent wall_state = wall_agent" by (simp add: wall_state_def)
  have c: "coin wall_state = coin ex_state2" by (simp add: wall_state_def)
  show ?thesis
    unfolding step_def a c wall_step_agent
    using wall_no_touch
    apply (simp add: Let_def)
    apply (simp add: wall_state_def ex_state2_def step_events_def default_config_def
        wall_agent_def)
    done
qed

lemma wall_inv: "agent_inv (agent wall_state)"
proof -
  have a: "agent wall_state = wall_agent" by (simp add: wall_state_def)
  have c: "clear_of_platforms default_config wall_agent"
    by (simp add: clear_of_platforms_def platform_tops_def hits_std [OF default_standard]
        wall_agent_def)
  have i: "in_arena default_config wall_agent"
    by (simp add: in_arena_def default_config_def wall_agent_def)
  show ?thesis unfolding agent_inv_def a using c i by (simp add: wall_agent_def)
qed

text \<open>
  C1. As stated, for every configuration, the claim fails: the push out of a platform
  runs after the clamp to the arena and can move the agent past the boundary (see the
  taller agent below). It holds under the default configuration: for every state of an
  episode (and every state whose agent satisfies the invariant of the episode's agents)
  and every action list, after \<open>step\<close> the agent's x is in [0, 616]. Positions and
  velocities are reals here, so that they remain finite is stated as bounds: the agent's
  y is in [36, 288], its horizontal speed is at most 250 and its vertical speed at most
  870, all far inside the range of a double.
\<close>

theorem arena_containment:
  assumes "reachable G default_config st \<or> agent_inv (agent st)"
    and "step default_config st actions r = Some (st', ev, r')"
  shows "0 \<le> agent_x (agent st')
         \<and> agent_x (agent st') \<le> real_of_int (W default_config - agent_size_w default_config)
         \<and> real_of_int (W default_config - agent_size_w default_config) = 616
         \<and> 36 \<le> agent_y (agent st') \<and> agent_y (agent st') \<le> 288
         \<and> \<bar>agent_vx (agent st')\<bar> \<le> 250 \<and> \<bar>agent_vy (agent st')\<bar> \<le> 870"
proof -
  have "agent_inv (agent st)" using assms(1) reachable_agent_inv_default by blast
  then have "agent_inv (agent st')"
    using step_agent_agent_inv step_agent_eq [OF assms(2)] by simp
  then show ?thesis using agent_inv_bounds by (simp add: default_config_def)
qed

theorem arena_containment_witness:
  "reachable (\<lambda>s n. 1) default_config ex_state
   \<and> step default_config ex_state [RIGHT, JUMP] ex_rng
       = Some (ex_state2\<lparr> agent := jump_agent \<rparr>, ex_events, ex_rng\<lparr> rng_pos := 1 \<rparr>)
   \<and> agent_x jump_agent = 308 + 50 / 60 \<and> agent_y jump_agent = 288 - 500 / 60
   \<and> 0 \<le> agent_x jump_agent \<and> agent_x jump_agent \<le> 616
   \<and> 36 \<le> agent_y jump_agent \<and> agent_y jump_agent \<le> 288
   \<and> \<bar>agent_vx jump_agent\<bar> \<le> 250 \<and> \<bar>agent_vy jump_agent\<bar> \<le> 870
   \<and> agent_inv (agent wall_state)
   \<and> agent_x (agent wall_state) + agent_vx (agent wall_state) * dt default_config < 0
   \<and> step default_config wall_state [LEFT] ex_rng
       = Some (wall_state\<lparr> agent := wall_agent\<lparr> agent_vx := 0 \<rparr>,
                            time_left := 10 - 1 / 60 \<rparr>,
               \<lparr> pickup = False, win = False, fail = None \<rparr>, ex_rng)
   \<and> agent_x (wall_agent\<lparr> agent_vx := 0 \<rparr>) = 0
   \<and> 0 \<le> agent_x (wall_agent\<lparr> agent_vx := 0 \<rparr>)
   \<and> agent_x (wall_agent\<lparr> agent_vx := 0 \<rparr>) \<le> 616"
proof -
  have t: "agent_x (agent wall_state) + agent_vx (agent wall_state) * dt default_config < 0"
    by (simp add: wall_state_def wall_agent_def default_config_def)
  show ?thesis
    using arena_containment [OF disjI1 [OF ex_reachable] jump_step]
      arena_containment [OF disjI2 [OF wall_inv] wall_step]
      ex_reachable jump_step wall_inv wall_step t
    by (simp add: jump_agent_def wall_agent_def)
qed

subsection \<open>A taller agent leaves the arena in one step\<close>

lemma tall_reset:
  "reset zero_draws tall_config 0 = Some (tall_state, ex_rng\<lparr> rng_pos := 1 \<rparr>)"
proof -
  have d: "default_rng zero_draws 0 = Some ex_rng"
    by (simp add: default_rng_def ex_rng_def zero_draws_0)
  have p: "coin_at (platform_tops tall_config ! nat 0) 0
             = \<lparr> coin_x = 98, coin_y = 300, coin_spawn_index = 0 \<rparr>"
    by (simp add: coin_at_def platform_tops_def)
  show ?thesis
    unfolding reset_def d option.case Let_def length_platform_tops idx_list zero_choice
    apply (simp only: option.case prod.case p)
    apply (simp add: tall_state_def tall_agent_def tall_config_def default_config_def)
    done
qed

lemma tall_input: "step_input tall_config [NOOP] tall_agent = tall_agent"
  by (simp add: step_input_def tall_config_def default_config_def tall_agent_def
      NOOP_def LEFT_def RIGHT_def np_clip_def)

lemma tall_move_x: "step_move_x tall_config tall_agent = tall_agent"
  by (simp add: step_move_x_def tall_config_def default_config_def tall_agent_def)

lemma tall_resolve_x:
  "resolve_x_all tall_config (platform_tops tall_config) tall_agent
     = tall_agent\<lparr> agent_x := 640 \<rparr>"
  by (simp add: platform_tops_def resolve_x_def hits_def rects_intersect_def
      tall_config_def default_config_def tall_agent_def)

lemma tall_move_y: "step_move_y tall_config [NOOP] (tall_agent\<lparr> agent_x := 640 \<rparr>) = tall_agent'"
  by (simp add: step_move_y_def tall_config_def default_config_def tall_agent_def
      tall_agent'_def NOOP_def JUMP_def)

lemma tall_resolve_y:
  "resolve_y_all tall_config (platform_tops tall_config) tall_agent' = tall_agent'"
  by (simp add: platform_tops_def resolve_y_def hits_def rects_intersect_def
      tall_config_def default_config_def tall_agent'_def)

lemma tall_step_agent: "step_agent tall_config [NOOP] tall_agent = tall_agent'"
  by (simp only: step_agent_def tall_input tall_move_x tall_resolve_x tall_move_y tall_resolve_y)

lemma tall_no_touch: "\<not> touches_coin tall_config tall_agent' (coin tall_state)"
  by (simp add: touches_coin_def rects_intersect_def tall_config_def default_config_def
      tall_agent'_def tall_state_def)

lemma tall_step: "step tall_config tall_state [NOOP] ex_rng =
   Some (tall_state\<lparr> agent := tall_agent', time_left := 10 - 1 / 60 \<rparr>,
         \<lparr> pickup = False, win = False, fail = None \<rparr>, ex_rng)"
proof -
  have a: "agent tall_state = tall_agent" by (simp add: tall_state_def)
  show ?thesis
    unfolding step_def a tall_step_agent
    using tall_no_touch
    apply (simp add: Let_def)
    apply (simp add: tall_state_def step_events_def tall_config_def default_config_def
        tall_agent'_def)
    done
qed

theorem arena_containment_counterexample:
  "reachable zero_draws tall_config tall_state
   \<and> step tall_config tall_state [NOOP] ex_rng
       = Some (tall_state\<lparr> agent := tall_agent', time_left := 10 - 1 / 60 \<rparr>,
               \<lparr> pickup = False, win = False, fail = None \<rparr>, ex_rng)
   \<and> agent_x tall_agent' = 640
   \<and> \<not> agent_x tall_agent' \<le> real_of_int (W tall_config - agent_size_w tall_config)"
  using reach_reset [OF tall_reset] tall_step
  by (simp add: tall_agent'_def tall_config_def default_config_def)

section \<open>Horizontal collision resolution\<close>

lemma resolve_x_all_append:
  "resolve_x_all cfg (ps @ qs) a = resolve_x_all cfg qs (resolve_x_all cfg ps a)"
  by (induction ps arbitrary: a) simp_all

lemma resolve_x_all_untouched:
  "\<forall>p \<in> set ps. \<not> hits cfg a p \<Longrightarrow> resolve_x_all cfg ps a = a"
  by (induction ps) (simp_all add: resolve_x_def)

lemma take_platforms:
  "take 0 (platform_tops cfg) = []"
  "take 1 (platform_tops cfg) = [(0, 320, 213, 40)]"
  "take 2 (platform_tops cfg) = [(0, 320, 213, 40), (213, 320, 214, 40)]"
  "take 3 (platform_tops cfg) = [(0, 320, 213, 40), (213, 320, 214, 40), (427, 320, 213, 40)]"
  "take 4 (platform_tops cfg) = [(0, 320, 213, 40), (213, 320, 214, 40), (427, 320, 213, 40),
      (200, 240, 240, 15)]"
  "take 5 (platform_tops cfg) = [(0, 320, 213, 40), (213, 320, 214, 40), (427, 320, 213, 40),
      (200, 240, 240, 15), (0, 160, 200, 15)]"
  by (simp_all add: platform_tops_def numeral_eq_Suc)

lemma nth_platforms:
  "platform_tops cfg ! 0 = (0, 320, 213, 40)" "platform_tops cfg ! 1 = (213, 320, 214, 40)"
  "platform_tops cfg ! 2 = (427, 320, 213, 40)" "platform_tops cfg ! 3 = (200, 240, 240, 15)"
  "platform_tops cfg ! 4 = (0, 160, 200, 15)" "platform_tops cfg ! 5 = (440, 160, 200, 15)"
  by (simp_all add: platform_tops_def numeral_eq_Suc)

lemma single_overlap:
  assumes std: "standard_geometry cfg"
    and fl: "\<not> (288 < agent_y b \<and> agent_y b < 360)"
    and i: "i < length (platform_tops cfg)"
    and h: "hits cfg b (platform_tops cfg ! i)"
  shows "resolve_x_all cfg (take i (platform_tops cfg)) b = b"
proof -
  note hs = hits_std [OF std]
  have "i < 6" using i by (simp add: length_platform_tops)
  then consider "i = 0" | "i = 1" | "i = 2" | "i = 3" | "i = 4" | "i = 5" by linarith
  then have "\<forall>p \<in> set (take i (platform_tops cfg)). \<not> hits cfg b p"
  proof cases
    case 1
    have h': "hits cfg b (0, 320, 213, 40)" using h unfolding 1 nth_platforms .
    show ?thesis unfolding 1 take_platforms using h' fl by (auto simp: hs)
  next
    case 2
    have h': "hits cfg b (213, 320, 214, 40)" using h unfolding 2 nth_platforms .
    show ?thesis unfolding 2 take_platforms using h' fl by (auto simp: hs)
  next
    case 3
    have h': "hits cfg b (427, 320, 213, 40)" using h unfolding 3 nth_platforms .
    show ?thesis unfolding 3 take_platforms using h' fl by (auto simp: hs)
  next
    case 4
    have h': "hits cfg b (200, 240, 240, 15)" using h unfolding 4 nth_platforms .
    show ?thesis unfolding 4 take_platforms using h' fl by (auto simp: hs)
  next
    case 5
    have h': "hits cfg b (0, 160, 200, 15)" using h unfolding 5 nth_platforms .
    show ?thesis unfolding 5 take_platforms using h' fl by (auto simp: hs)
  next
    case 6
    have h': "hits cfg b (440, 160, 200, 15)" using h unfolding 6 nth_platforms .
    show ?thesis unfolding 6 take_platforms using h' fl by (auto simp: hs)
  qed
  then show ?thesis by (rule resolve_x_all_untouched)
qed

lemma clear_not_floor:
  assumes std: "standard_geometry cfg" and "in_arena cfg a" and "clear_of_platforms cfg a"
  shows "\<not> (288 < agent_y a \<and> agent_y a < 360)"
proof -
  have "W cfg = 640" "agent_size_w cfg = 24"
    using std by (simp_all add: standard_geometry_def)
  then have x: "0 \<le> agent_x a" "agent_x a \<le> 616" using assms(2) by (simp_all add: in_arena_def)
  note c = clear_std [OF std assms(3), unfolded hits_std [OF std]]
  show ?thesis using c(1,2,3) x by auto
qed

text \<open>
  C2. As stated the claim fails: the loop tests each platform against the agent's box as
  the earlier platforms of the table left it, not against the box after horizontal
  integration, so a platform that overlaps after integration is skipped when an earlier
  snap has moved the agent away (the agent inside the floor, below). What the loop does:
  when it reaches platform \<open>i\<close> of the table with the agent \<open>b\<close> (the agent after
  integration, as resolved against platforms 0 to \<open>i - 1\<close>), and \<open>b\<close> overlaps the platform,
  the agent's right edge is put at the platform's left edge if \<open>b\<close> has vx > 0, else its
  left edge at the platform's right edge, and vx becomes 0; otherwise \<open>b\<close> is kept. The
  first platform of the table that overlaps the agent after integration is reached with
  that agent unchanged. With the default geometry and the agent of a state of an episode
  (or any agent inside the arena that overlaps no platform), every platform that
  overlaps after integration is reached with the agent unchanged, so there it is
  resolved as the claim says.
\<close>

theorem horizontal_resolution:
  assumes "i < length (platform_tops cfg)" and "platform_tops cfg ! i = (px, py, pw, ph)"
  shows "(let a1 = step_move_x cfg (step_input cfg actions (agent st));
              b = resolve_x_all cfg (take i (platform_tops cfg)) a1
          in resolve_x_all cfg (take (Suc i) (platform_tops cfg)) a1 =
               (if rects_intersect (agent_x b) (agent_y b)
                     (real_of_int (agent_size_w cfg)) (real_of_int (agent_size_h cfg))
                     (real_of_int px) (real_of_int py) (real_of_int pw) (real_of_int ph)
                then b\<lparr> agent_x := (if agent_vx b > 0 then real_of_int (px - agent_size_w cfg)
                                     else real_of_int (px + pw)),
                         agent_vx := 0 \<rparr>
                else b)
             \<and> ((\<forall>j < i. \<not> hits cfg a1 (platform_tops cfg ! j)) \<longrightarrow> b = a1)
             \<and> (standard_geometry cfg
                  \<and> (reachable G cfg st
                      \<or> in_arena cfg (agent st) \<and> clear_of_platforms cfg (agent st))
                  \<and> hits cfg a1 (platform_tops cfg ! i) \<longrightarrow> b = a1))"
proof -
  define ps where "ps = platform_tops cfg"
  define a1 where "a1 = step_move_x cfg (step_input cfg actions (agent st))"
  define b where "b = resolve_x_all cfg (take i ps) a1"
  have "take (Suc i) ps = take i ps @ [ps ! i]"
    using assms(1) by (simp add: take_Suc_conv_app_nth ps_def)
  then have s: "resolve_x_all cfg (take (Suc i) ps) a1 = resolve_x cfg (ps ! i) b"
    by (simp add: resolve_x_all_append b_def)
  have r: "resolve_x cfg (ps ! i) b =
            (if rects_intersect (agent_x b) (agent_y b)
                  (real_of_int (agent_size_w cfg)) (real_of_int (agent_size_h cfg))
                  (real_of_int px) (real_of_int py) (real_of_int pw) (real_of_int ph)
             then b\<lparr> agent_x := (if agent_vx b > 0 then real_of_int (px - agent_size_w cfg)
                                  else real_of_int (px + pw)),
                      agent_vx := 0 \<rparr>
             else b)"
    using assms(2) by (simp add: resolve_x_def hits_def ps_def)
  have u: "b = a1" if "\<forall>j < i. \<not> hits cfg a1 (ps ! j)"
  proof -
    have "\<forall>p \<in> set (take i ps). \<not> hits cfg a1 p"
    proof
      fix p assume "p \<in> set (take i ps)"
      then obtain j where "j < length (take i ps)" "take i ps ! j = p"
        by (metis in_set_conv_nth)
      then have "j < i" "ps ! j = p" by simp_all
      then show "\<not> hits cfg a1 p" using that by blast
    qed
    then show ?thesis unfolding b_def by (rule resolve_x_all_untouched)
  qed
  have e: "b = a1"
    if std: "standard_geometry cfg"
      and inv: "reachable G cfg st \<or> in_arena cfg (agent st) \<and> clear_of_platforms cfg (agent st)"
      and h: "hits cfg a1 (ps ! i)"
  proof -
    have "in_arena cfg (agent st) \<and> clear_of_platforms cfg (agent st)"
      using inv reachable_agent_inv [OF std] by blast
    then have "\<not> (288 < agent_y (agent st) \<and> agent_y (agent st) < 360)"
      using clear_not_floor [OF std] by blast
    then have "\<not> (288 < agent_y a1 \<and> agent_y a1 < 360)"
      by (simp add: a1_def step_move_x_y step_input_xy)
    then show ?thesis
      unfolding b_def ps_def using single_overlap [OF std _ assms(1)] h ps_def by blast
  qed
  show ?thesis
    unfolding Let_def a1_def [symmetric] ps_def [symmetric] b_def [symmetric]
    using s r u e by simp
qed

lemma moved_from_step:
  "step_move_x default_config (step_input default_config [RIGHT] floor_agent) = moved_agent"
proof -
  have "step_input default_config [RIGHT] floor_agent = floor_agent\<lparr> agent_vx := 25 \<rparr>"
    by (simp add: step_input_def default_config_def floor_agent_def LEFT_def RIGHT_def
        np_clip_def)
  then show ?thesis
    by (simp add: step_move_x_def default_config_def floor_agent_def moved_agent_def)
qed

lemma moved_hits_1: "hits default_config moved_agent (platform_tops default_config ! 1)"
  by (simp add: hits_def rects_intersect_def platform_tops_def default_config_def
      moved_agent_def)

lemma moved_after_0:
  "resolve_x_all default_config (take 1 (platform_tops default_config)) moved_agent
     = moved_agent\<lparr> agent_x := - 24, agent_vx := 0 \<rparr>"
  by (simp add: platform_tops_def resolve_x_def hits_def rects_intersect_def
      default_config_def moved_agent_def)

lemma moved_after_1:
  "resolve_x_all default_config (take 2 (platform_tops default_config)) moved_agent
     = moved_agent\<lparr> agent_x := - 24, agent_vx := 0 \<rparr>"
  by (simp add: platform_tops_def resolve_x_def hits_def rects_intersect_def
      default_config_def moved_agent_def numeral_2_eq_2)

lemma moved_final:
  "resolve_x_all default_config (platform_tops default_config) moved_agent
     = moved_agent\<lparr> agent_x := - 24, agent_vx := 0 \<rparr>"
  by (simp add: platform_tops_def resolve_x_def hits_def rects_intersect_def
      default_config_def moved_agent_def)

theorem horizontal_resolution_counterexample:
  "step_move_x default_config (step_input default_config [RIGHT] floor_agent) = moved_agent
   \<and> hits default_config moved_agent (platform_tops default_config ! 1)
   \<and> platform_tops default_config ! 1 = (213, 320, 214, 40)
   \<and> resolve_x_all default_config (take 2 (platform_tops default_config)) moved_agent
       = resolve_x_all default_config (take 1 (platform_tops default_config)) moved_agent
   \<and> agent_x (resolve_x_all default_config (platform_tops default_config) moved_agent) = - 24"
proof -
  have p: "platform_tops default_config ! 1 = (213, 320, 214, 40)"
    by (simp add: platform_tops_def)
  show ?thesis
    using moved_from_step moved_hits_1 p
    by (simp only: moved_after_0 moved_after_1 moved_final) simp
qed

lemma side_moved:
  "step_move_x default_config (step_input default_config [RIGHT] (agent side_state))
     = agent side_state\<lparr> agent_x := 176 + 25 / 60, agent_vx := 25 \<rparr>"
proof -
  have "step_input default_config [RIGHT] (agent side_state)
          = agent side_state\<lparr> agent_vx := 25 \<rparr>"
    by (simp add: step_input_def default_config_def side_state_def LEFT_def RIGHT_def
        np_clip_def)
  then show ?thesis
    by (simp add: step_move_x_def default_config_def side_state_def)
qed

theorem horizontal_resolution_witness:
  "(3::nat) < length (platform_tops default_config)
   \<and> platform_tops default_config ! 3 = (200, 240, 240, 15)
   \<and> standard_geometry default_config
   \<and> in_arena default_config (agent side_state)
   \<and> clear_of_platforms default_config (agent side_state)
   \<and> hits default_config
        (step_move_x default_config (step_input default_config [RIGHT] (agent side_state)))
        (platform_tops default_config ! 3)
   \<and> resolve_x_all default_config (take 4 (platform_tops default_config))
        (step_move_x default_config (step_input default_config [RIGHT] (agent side_state)))
       = agent side_state\<lparr> agent_x := 176, agent_vx := 0 \<rparr>"
proof -
  have l: "(3::nat) < length (platform_tops default_config)" by (simp add: length_platform_tops)
  have p: "platform_tops default_config ! 3 = (200, 240, 240, 15)"
    by (simp add: nth_platforms)
  have ar: "in_arena default_config (agent side_state)"
    by (simp add: in_arena_def default_config_def side_state_def)
  have cl: "clear_of_platforms default_config (agent side_state)"
    by (simp add: clear_of_platforms_def platform_tops_def hits_std [OF default_standard]
        side_state_def)
  have h: "hits default_config
        (step_move_x default_config (step_input default_config [RIGHT] (agent side_state)))
        (platform_tops default_config ! 3)"
    unfolding side_moved p by (simp add: hits_std [OF default_standard] side_state_def)
  have t: "resolve_x_all default_config (take 3 (platform_tops default_config))
        (agent side_state\<lparr> agent_x := 176 + 25 / 60, agent_vx := 25 \<rparr>)
      = agent side_state\<lparr> agent_x := 176 + 25 / 60, agent_vx := 25 \<rparr>"
    by (simp add: take_platforms resolve_x_def hits_std [OF default_standard] side_state_def)
  show ?thesis
    using horizontal_resolution [OF l p, of "[RIGHT]" side_state] l p default_standard ar cl h
    unfolding side_moved Let_def t
    by (simp add: rects_intersect_def default_config_def side_state_def)
qed

section \<open>Purity of step\<close>

lemma alloc3:
  "alloc h (AgentObj a) = (next_addr h, h1) \<Longrightarrow> alloc h1 (CoinObj c) = (nc, h2)
   \<Longrightarrow> alloc h2 (StateObj s) = (ns, h3)
   \<Longrightarrow> nc = Suc (next_addr h) \<and> ns = Suc (Suc (next_addr h)) \<and> h3 = built h a c s"
  by (auto simp: alloc_def built_def)

lemma built_get:
  "get_agent (built h a c s) (next_addr h) = Some a"
  "get_coin (built h a c s) (Suc (next_addr h)) = Some c"
  "get_state (built h a c s) (Suc (Suc (next_addr h))) = Some s"
  by (simp_all add: get_agent_def get_coin_def get_state_def lookup_def built_def)

lemma built_set:
  "set_obj (built h a c s) (next_addr h) (AgentObj a') = built h a' c s"
  "set_obj (built h a c s) (Suc (next_addr h)) (CoinObj c') = built h a c' s"
  "set_obj (built h a c s) (Suc (Suc (next_addr h))) (StateObj s') = built h a c s'"
  by (simp_all add: set_obj_def built_def fun_upd_twist)

lemma built_modify:
  "modify_agent (built h a c s) (next_addr h) f = Some (built h (f a) c s)"
  "modify_coin (built h a c s) (Suc (next_addr h)) g = Some (built h a (g c) s)"
  "modify_state (built h a c s) (Suc (Suc (next_addr h))) k = Some (built h a c (k s))"
  by (simp_all add: modify_agent_def modify_coin_def modify_state_def built_get built_set)

lemma built_frame: "a < next_addr h \<Longrightarrow> cells (built h x c s) a = cells h a"
  by (simp add: built_def)

lemma built_read:
  "read_state (built h a c (to_obj (next_addr h) (Suc (next_addr h)) s)) (Suc (Suc (next_addr h)))
     = Some (s\<lparr> agent := a, coin := c \<rparr>)"
  by (simp add: read_state_def built_get to_obj_def)

lemma read_stateD:
  assumes "read_state h st = Some s0"
  obtains s a c where "get_state h st = Some s" "get_agent h (so_agent s) = Some a"
    "get_coin h (so_coin s) = Some c"
    "s0 = \<lparr> agent = a, coin = c, coins_collected = so_coins_collected s,
            time_left = so_time_left s,
            last_coin_spawn_index = so_last_coin_spawn_index s \<rparr>"
  using assms by (auto simp: read_state_def split: bind_splits)

lemma alloc3_let:
  "(let (na, h1) = alloc h (AgentObj a) in
    let (nc, h2) = alloc h1 (CoinObj c) in
    let (ns, h3) = alloc h2 (StateObj (F na nc)) in K na nc ns h3)
   = K (next_addr h) (Suc (next_addr h)) (Suc (Suc (next_addr h)))
       (built h a c (F (next_addr h) (Suc (next_addr h))))"
  by (simp add: alloc_def built_def)

lemma step_store_refines:
  assumes "read_state h st = Some s0"
  shows "step_store cfg h st actions r =
     (case step cfg s0 actions r of None \<Rightarrow> None
      | Some (s1, ev, r') \<Rightarrow>
          Some (built h (agent s1) (coin s1) (to_obj (next_addr h) (Suc (next_addr h)) s1),
                Suc (Suc (next_addr h)), ev, r'))"
proof -
  from assms obtain s a c where gs: "get_state h st = Some s"
    and ga: "get_agent h (so_agent s) = Some a" and gc: "get_coin h (so_coin s) = Some c"
    and s0: "s0 = \<lparr> agent = a, coin = c, coins_collected = so_coins_collected s,
            time_left = so_time_left s,
            last_coin_spawn_index = so_last_coin_spawn_index s \<rparr>"
    by (rule read_stateD)
  have ca: "\<lparr> agent_x = agent_x a, agent_y = agent_y a, agent_vx = agent_vx a,
             agent_vy = agent_vy a, agent_grounded = agent_grounded a \<rparr> = a" by simp
  have cc: "\<lparr> coin_x = coin_x c, coin_y = coin_y c, coin_spawn_index = coin_spawn_index c \<rparr> = c"
    by simp
  define a' where "a' = step_agent cfg actions a"
  have fa: "resolve_y_all cfg (platform_tops cfg) (step_move_y cfg actions
       (resolve_x_all cfg (platform_tops cfg) (step_move_x cfg (step_input cfg actions a)))) = a'"
    by (simp add: a'_def step_agent_def)
  have l: "step_store cfg h st actions r =
      (if touches_coin cfg a' c then
         (case sample_coin_spawn cfg r (so_last_coin_spawn_index s) of None \<Rightarrow> None
          | Some (i, r') \<Rightarrow>
              Some (built h a' (coin_at (platform_tops cfg ! nat i) i)
                      \<lparr> so_agent = next_addr h, so_coin = Suc (next_addr h),
                        so_coins_collected = so_coins_collected s + 1,
                        so_time_left = timer_budget cfg, so_last_coin_spawn_index = i \<rparr>,
                    Suc (Suc (next_addr h)),
                    \<lparr> pickup = True, win = (so_coins_collected s + 1 \<ge> coins_to_win cfg),
                      fail = (if timer_budget cfg \<le> 0 then Some ''timeout''
                              else if agent_y a' \<ge> death_y cfg then Some ''fall''
                              else None) \<rparr>, r'))
       else Some (built h a' c
                    \<lparr> so_agent = next_addr h, so_coin = Suc (next_addr h),
                      so_coins_collected = so_coins_collected s,
                      so_time_left = so_time_left s - dt cfg,
                      so_last_coin_spawn_index = so_last_coin_spawn_index s \<rparr>,
                  Suc (Suc (next_addr h)),
                  \<lparr> pickup = False, win = (so_coins_collected s \<ge> coins_to_win cfg),
                    fail = (if so_time_left s - dt cfg \<le> 0 then Some ''timeout''
                            else if agent_y a' \<ge> death_y cfg then Some ''fall''
                            else None) \<rparr>, r))"
    unfolding step_store_def gs
    apply (simp only: bind.bind_lunit ga gc ca cc alloc3_let)
    apply (simp only: built_modify bind.bind_lunit built_get fa)
    apply (cases "touches_coin cfg a' c")
     apply (simp_all add: built_get split: option.splits)
    done
  have p: "step cfg s0 actions r =
      (if touches_coin cfg a' c then
         (case sample_coin_spawn cfg r (so_last_coin_spawn_index s) of None \<Rightarrow> None
          | Some (i, r') \<Rightarrow>
              Some (\<lparr> agent = a', coin = coin_at (platform_tops cfg ! nat i) i,
                      coins_collected = so_coins_collected s + 1,
                      time_left = timer_budget cfg, last_coin_spawn_index = i \<rparr>,
                    \<lparr> pickup = True, win = (so_coins_collected s + 1 \<ge> coins_to_win cfg),
                      fail = (if timer_budget cfg \<le> 0 then Some ''timeout''
                              else if agent_y a' \<ge> death_y cfg then Some ''fall''
                              else None) \<rparr>, r'))
       else Some (\<lparr> agent = a', coin = c, coins_collected = so_coins_collected s,
                    time_left = so_time_left s - dt cfg,
                    last_coin_spawn_index = so_last_coin_spawn_index s \<rparr>,
                  \<lparr> pickup = False, win = (so_coins_collected s \<ge> coins_to_win cfg),
                    fail = (if so_time_left s - dt cfg \<le> 0 then Some ''timeout''
                            else if agent_y a' \<ge> death_y cfg then Some ''fall''
                            else None) \<rparr>, r))"
    by (simp add: step_def Let_def s0 a'_def step_events_def split: option.splits)
  show ?thesis
    unfolding l p by (simp add: to_obj_def split: option.splits)
qed

lemma extends_refl: "extends h h"
  by (simp add: extends_def)

lemma extends_trans: "extends h h' \<Longrightarrow> extends h' h'' \<Longrightarrow> extends h h''"
  by (auto simp: extends_def)

lemma extends_built: "extends h (built h a c s)"
  by (simp add: extends_def built_def)

lemma extends_lookup: "extends h h' \<Longrightarrow> lookup h a = Some ob \<Longrightarrow> lookup h' a = Some ob"
  by (auto simp: extends_def lookup_def split: if_splits)

lemma extends_read:
  assumes "extends h h'" and "read_state h st = Some s"
  shows "read_state h' st = Some s"
proof -
  from assms(2) obtain so a c where g: "get_state h st = Some so"
    "get_agent h (so_agent so) = Some a" "get_coin h (so_coin so) = Some c"
    and s: "s = \<lparr> agent = a, coin = c, coins_collected = so_coins_collected so,
            time_left = so_time_left so,
            last_coin_spawn_index = so_last_coin_spawn_index so \<rparr>"
    by (rule read_stateD)
  have "lookup h st = Some (StateObj so)" "lookup h (so_agent so) = Some (AgentObj a)"
    "lookup h (so_coin so) = Some (CoinObj c)"
    using g by (auto simp: get_state_def get_agent_def get_coin_def split: option.splits obj.splits)
  then have "lookup h' st = Some (StateObj so)" "lookup h' (so_agent so) = Some (AgentObj a)"
    "lookup h' (so_coin so) = Some (CoinObj c)"
    using extends_lookup [OF assms(1)] by blast+
  then show ?thesis
    by (simp add: read_state_def get_state_def get_agent_def get_coin_def s)
qed

lemma step_store_result:
  assumes "read_state h st = Some s0" and "step_store cfg h st actions r = Some (h', st', ev, r')"
  shows "\<exists>s1. step cfg s0 actions r = Some (s1, ev, r') \<and> read_state h' st' = Some s1
           \<and> extends h h'"
proof -
  obtain s1 where p: "step cfg s0 actions r = Some (s1, ev, r')"
    and h': "h' = built h (agent s1) (coin s1) (to_obj (next_addr h) (Suc (next_addr h)) s1)"
    and st': "st' = Suc (Suc (next_addr h))"
    using assms(2) unfolding step_store_refines [OF assms(1)]
    by (auto split: option.splits)
  have "read_state h' st' = Some s1" unfolding h' st' built_read by simp
  then show ?thesis using p h' extends_built by blast
qed

lemma step_store_none:
  assumes "read_state h st = Some s0" and "step_store cfg h st actions r = None"
  shows "step cfg s0 actions r = None"
  using assms(2) unfolding step_store_refines [OF assms(1)] by (auto split: option.splits)

lemma run_store_extends:
  "read_state h st = Some s \<Longrightarrow> run_store cfg h st r actss = Some (h', tr) \<Longrightarrow> extends h h'"
proof (induction actss arbitrary: h st r s tr)
  case Nil
  then show ?case by (simp add: extends_refl)
next
  case (Cons actions rest)
  from Cons.prems(2) obtain h1 st1 ev r1 tr1 where
    s: "step_store cfg h st actions r = Some (h1, st1, ev, r1)"
    and t: "run_store cfg h1 st1 r1 rest = Some (h', tr1)"
    by (auto split: bind_splits)
  obtain s1 where "read_state h1 st1 = Some s1" "extends h h1"
    using step_store_result [OF Cons.prems(1) s] by blast
  then show ?case using Cons.IH [OF _ t] extends_trans by blast
qed

lemma run_store_refines:
  "read_state h st = Some s \<Longrightarrow>
     (run_store cfg h st r actss \<bind> (\<lambda>(h', tr). observe h' tr)) = run cfg s r actss"
proof (induction actss arbitrary: h st r s)
  case Nil
  then show ?case by simp
next
  case (Cons actions rest)
  show ?case
  proof (cases "step_store cfg h st actions r")
    case None
    then show ?thesis using step_store_none [OF Cons.prems None] by simp
  next
    case (Some res)
    then obtain h1 st1 ev r1 where s: "step_store cfg h st actions r = Some (h1, st1, ev, r1)"
      by (cases res) auto
    obtain s1 where p: "step cfg s actions r = Some (s1, ev, r1)"
      and rd: "read_state h1 st1 = Some s1"
      using step_store_result [OF Cons.prems s] by blast
    note ih = Cons.IH [OF rd, of r1]
    show ?thesis
    proof (cases "run_store cfg h1 st1 r1 rest")
      case None
      then show ?thesis using ih by (simp add: s p)
    next
      case (Some res2)
      then obtain h2 tr where t: "run_store cfg h1 st1 r1 rest = Some (h2, tr)"
        by (cases res2) auto
      have "read_state h2 st1 = Some s1"
        using extends_read [OF run_store_extends [OF rd t] rd] .
      then show ?thesis using ih by (simp add: s p t)
    qed
  qed
qed

lemma reset_store_refines:
  "reset_store G cfg h seed =
     (case reset G cfg seed of None \<Rightarrow> None
      | Some (s, r) \<Rightarrow>
          Some (built h (agent s) (coin s) (to_obj (next_addr h) (Suc (next_addr h)) s),
                Suc (Suc (next_addr h)), r))"
  by (simp add: reset_store_def reset_def Let_def alloc_def built_def to_obj_def
      split: option.splits)

lemma episode_store_refines:
  "(episode_store G cfg h seed actss \<bind> watch) = episode G cfg seed actss"
proof (cases "reset G cfg seed")
  case None
  then show ?thesis by (simp add: episode_store_def episode_def reset_store_refines)
next
  case (Some res)
  then obtain s r where rs: "reset G cfg seed = Some (s, r)" by (cases res) auto
  define h0 where "h0 = built h (agent s) (coin s) (to_obj (next_addr h) (Suc (next_addr h)) s)"
  define st0 where "st0 = Suc (Suc (next_addr h))"
  have r0: "reset_store G cfg h seed = Some (h0, st0, r)"
    by (simp add: reset_store_refines rs h0_def st0_def)
  have rd: "read_state h0 st0 = Some s" unfolding h0_def st0_def built_read by simp
  note rf = run_store_refines [OF rd, of cfg r actss]
  show ?thesis
  proof (cases "run_store cfg h0 st0 r actss")
    case None
    then show ?thesis using rf by (simp add: episode_store_def episode_def r0 rs)
  next
    case (Some res2)
    then obtain h1 tr where t: "run_store cfg h0 st0 r actss = Some (h1, tr)"
      by (cases res2) auto
    have "read_state h1 st0 = Some s"
      using extends_read [OF run_store_extends [OF rd t] rd] .
    then show ?thesis using rf
      by (simp add: episode_store_def episode_def r0 rs t watch_def split: bind_splits)
  qed
qed

text \<open>
  C8. Two runs of \<open>reset\<close> followed by the same action lists, started in any two
  stores, show the same initial state and the same trajectory of states and events,
  namely the one the functions \<open>reset\<close> and \<open>step\<close> on values compute from the
  configuration, the seed's stream and the actions. One call of \<open>step\<close> on a readable
  state returns; the state and events it returns are those of the function \<open>step\<close> on
  the value of the input state, whatever else the store holds; the input state reads
  the same afterwards, and no object that existed before the call is changed. Of the
  generator, only the draw at its position is read.
\<close>

theorem step_is_pure:
  "(episode_store G cfg h1 seed actss \<bind> watch) = episode G cfg seed actss
   \<and> (episode_store G cfg h1 seed actss \<bind> watch) = (episode_store G cfg h2 seed actss \<bind> watch)
   \<and> (read_state h st = Some s \<longrightarrow>
        (\<exists>h' st' s' ev r'.
            step_store cfg h st actions r = Some (h', st', ev, r')
            \<and> step cfg s actions r = Some (s', ev, r')
            \<and> read_state h' st' = Some s'
            \<and> read_state h' st = Some s
            \<and> (\<forall>a < next_addr h. cells h' a = cells h a)))
   \<and> (rng_draws r (rng_pos r) = rng_draws r2 (rng_pos r2) \<longrightarrow>
        map_option (\<lambda>(s', ev, r'). (s', ev)) (step cfg s actions r)
          = map_option (\<lambda>(s', ev, r'). (s', ev)) (step cfg s actions r2))"
proof -
  have 3: "\<exists>h' st' s' ev r'.
            step_store cfg h st actions r = Some (h', st', ev, r')
            \<and> step cfg s actions r = Some (s', ev, r')
            \<and> read_state h' st' = Some s'
            \<and> read_state h' st = Some s
            \<and> (\<forall>a < next_addr h. cells h' a = cells h a)" if rd: "read_state h st = Some s"
  proof -
    obtain s' ev r' where p: "step cfg s actions r = Some (s', ev, r')"
      using step_total by blast
    define h' where "h' = built h (agent s') (coin s') (to_obj (next_addr h) (Suc (next_addr h)) s')"
    have ss: "step_store cfg h st actions r = Some (h', Suc (Suc (next_addr h)), ev, r')"
      unfolding step_store_refines [OF rd] by (simp add: p h'_def)
    have e: "extends h h'" unfolding h'_def by (rule extends_built)
    have "read_state h' (Suc (Suc (next_addr h))) = Some s'"
      unfolding h'_def built_read by simp
    moreover have "read_state h' st = Some s" using e rd by (rule extends_read)
    moreover have "\<forall>a < next_addr h. cells h' a = cells h a" using e by (simp add: extends_def)
    ultimately show ?thesis using ss p by blast
  qed
  have 4: "map_option (\<lambda>(s', ev, r'). (s', ev)) (step cfg s actions r)
          = map_option (\<lambda>(s', ev, r'). (s', ev)) (step cfg s actions r2)"
    if "rng_draws r (rng_pos r) = rng_draws r2 (rng_pos r2)"
    using that
    by (simp add: step_def Let_def sample_coin_spawn_def rng_choice_def split: option.splits)
  show ?thesis using 3 4 by (simp add: episode_store_refines)
qed

lemma ex_store_read: "read_state ex_store 2 = Some ex_state"
proof -
  have "read_state ex_store (Suc (Suc (next_addr empty_store)))
          = Some (ex_state\<lparr> agent := ex_agent, coin := coin ex_state \<rparr>)"
    unfolding ex_store_def
    using built_read [of empty_store ex_agent "coin ex_state" ex_state]
    by (simp add: empty_store_def)
  then show ?thesis by (simp add: empty_store_def ex_state_def numeral_2_eq_2)
qed

theorem step_is_pure_witness:
  "read_state ex_store 2 = Some ex_state
   \<and> (\<exists>h' st'. step_store default_config ex_store 2 [NOOP] ex_rng
                  = Some (h', st', ex_events, ex_rng\<lparr> rng_pos := 1 \<rparr>)
               \<and> read_state h' st' = Some ex_state2
               \<and> read_state h' 2 = Some ex_state
               \<and> (\<forall>a < next_addr ex_store. cells h' a = cells ex_store a))"
  using step_is_pure [of "\<lambda>s n. 1" default_config empty_store 0 "[]" empty_store
      ex_store 2 ex_state "[NOOP]" ex_rng] ex_store_read ex_step
  by auto

end
